theory Spec2Isabelle
  imports Complex_Main "HOL-Library.AList" "HOL-Library.Multiset"
begin

section \<open>The statistics engine (MetricsCalculator)\<close>

text \<open>
  JavaScript numbers are modelled exactly: byte counts are naturals, clock readings
  (\<open>Date.now()\<close>) are integers, and every derived quantity (rates, round-trip times,
  the jitter estimate, percentiles) is a real number. Rounding errors of IEEE doubles are
  outside this model. Reading an array outside its bounds gives \<open>undefined\<close> in
  JavaScript, which arithmetic turns into \<open>NaN\<close>; that outcome is the value \<open>None\<close>.
\<close>

record throughputSample =
  bytes :: nat
  timestamp :: int

record rttSample =
  rtt :: real
  rtt_timestamp :: int

record metricsCalculator =
  throughputSamples :: "throughputSample list"
  bucketSize :: int
  windowSize :: int
  rttSamples :: "rttSample list"
  jitterEstimate :: real
  jitterSamples :: "real list"
  lostEchoes :: nat
  sentEchoes :: nat
  lastRtt :: real

record throughput =
  medianMbps :: real
  p95Mbps :: real
  p99Mbps :: real
  avgMbps :: real
  maxMbps :: real

record latency =
  minMs :: real
  avgMs :: real
  medianMs :: real
  p95Ms :: real
  p99Ms :: real

record jitter =
  meanMs :: real
  jitter_p95Ms :: real

definition reset :: metricsCalculator where
  "reset = \<lparr>throughputSamples = [], bucketSize = 250, windowSize = 1000,
             rttSamples = [], jitterEstimate = 0, jitterSamples = [],
             lostEchoes = 0, sentEchoes = 0, lastRtt = 0\<rparr>"

definition addThroughputSample :: "nat \<Rightarrow> int \<Rightarrow> metricsCalculator \<Rightarrow> metricsCalculator" where
  "addThroughputSample b t st =
     st\<lparr>throughputSamples := throughputSamples st @ [\<lparr>bytes = b, timestamp = t\<rparr>]\<rparr>"

definition addRttSample :: "real \<Rightarrow> int \<Rightarrow> metricsCalculator \<Rightarrow> metricsCalculator" where
  "addRttSample r t st =
     (let st1 = st\<lparr>sentEchoes := sentEchoes st + 1,
                    rttSamples := rttSamples st @ [\<lparr>rtt = r, rtt_timestamp = t\<rparr>]\<rparr>;
          st2 = (if lastRtt st1 > 0
                 then (let D = \<bar>r - lastRtt st1\<bar>
                       in st1\<lparr>jitterEstimate := jitterEstimate st1 + (D - jitterEstimate st1) / 16,
                              jitterSamples := jitterSamples st1 @ [D]\<rparr>)
                 else st1)
      in st2\<lparr>lastRtt := r\<rparr>)"

definition addLostEcho :: "metricsCalculator \<Rightarrow> metricsCalculator" where
  "addLostEcho st = st\<lparr>sentEchoes := sentEchoes st + 1, lostEchoes := lostEchoes st + 1\<rparr>"

text \<open>\<open>sortedArray[i]\<close> for an integer \<open>i\<close>: \<open>None\<close> outside the array.\<close>

definition js_nth :: "'a list \<Rightarrow> int \<Rightarrow> 'a option" where
  "js_nth xs i = (if 0 \<le> i \<and> i < int (length xs) then Some (xs ! nat i) else None)"

definition percentile :: "real list \<Rightarrow> real \<Rightarrow> real option" where
  "percentile sortedArray p =
     (if length sortedArray = 0 then Some 0
      else if length sortedArray = 1 then Some (sortedArray ! 0)
      else (let index = (p / 100) * real (length sortedArray - 1);
                lower = \<lfloor>index\<rfloor>;
                upper = \<lceil>index\<rceil>;
                weight = index - of_int lower
            in case (js_nth sortedArray lower, js_nth sortedArray upper) of
                 (Some a, Some b) \<Rightarrow> Some (a * (1 - weight) + b * weight)
               | _ \<Rightarrow> None))"

text \<open>
  The inner loop of \<open>calculateThroughput\<close>: starting at the anchor, add the bytes of the
  samples while their timestamp is below \<open>windowEnd\<close>, and leave the loop (\<open>break\<close>) at
  the first sample that is not.
\<close>

fun bytesInWindow :: "int \<Rightarrow> throughputSample list \<Rightarrow> nat" where
  "bytesInWindow windowEnd [] = 0"
| "bytesInWindow windowEnd (s # ss) =
     (if timestamp s < windowEnd then bytes s + bytesInWindow windowEnd ss else 0)"

text \<open>
  The outer loop: one rate for every index \<open>i\<close>, computed from the samples at the
  indices \<open>j \<ge> i\<close>, that is from the suffix of the list that starts at the anchor.
\<close>

fun windowRates :: "int \<Rightarrow> throughputSample list \<Rightarrow> real list" where
  "windowRates w [] = []"
| "windowRates w (s # ss) =
     (real (bytesInWindow (timestamp s + w) (s # ss)) * 8) / (real_of_int w / 1000) / 1000000
       # windowRates w ss"

definition zeroThroughput :: throughput where
  "zeroThroughput = \<lparr>medianMbps = 0, p95Mbps = 0, p99Mbps = 0, avgMbps = 0, maxMbps = 0\<rparr>"

text \<open>
  The statistics of a list of rates, as the last lines of \<open>calculateThroughput\<close> compute
  them. The percentiles asked for are 50, 95 and 99, for which \<open>percentile\<close> is never
  \<open>None\<close> (lemma \<open>percentile_defined\<close>); the list is not empty where this is called.
\<close>

definition rateStatistics :: "real list \<Rightarrow> throughput" where
  "rateStatistics windowRates' =
     (let sortedRates = sort windowRates'
      in \<lparr>medianMbps = the (percentile sortedRates 50),
          p95Mbps = the (percentile sortedRates 95),
          p99Mbps = the (percentile sortedRates 99),
          avgMbps = sum_list sortedRates / real (length sortedRates),
          maxMbps = Max (set sortedRates)\<rparr>)"

definition calculateThroughput :: "int \<Rightarrow> metricsCalculator \<Rightarrow> throughput" where
  "calculateThroughput warmupMs st =
     (if length (throughputSamples st) = 0 then zeroThroughput
      else (let sorted' = sort_key timestamp (throughputSamples st);
                startTime = timestamp (hd sorted') + warmupMs;
                measuredSamples = filter (\<lambda>s. timestamp s \<ge> startTime) sorted'
            in if length measuredSamples = 0 then zeroThroughput
               else rateStatistics (windowRates (windowSize st) measuredSamples)))"

definition zeroLatency :: latency where
  "zeroLatency = \<lparr>minMs = 0, avgMs = 0, medianMs = 0, p95Ms = 0, p99Ms = 0\<rparr>"

definition calculateLatency :: "metricsCalculator \<Rightarrow> latency" where
  "calculateLatency st =
     (if length (rttSamples st) = 0 then zeroLatency
      else (let rtts = map rtt (rttSamples st);
                sortedRtts = sort rtts
            in \<lparr>minMs = sortedRtts ! 0,
                avgMs = sum_list rtts / real (length rtts),
                medianMs = the (percentile sortedRtts 50),
                p95Ms = the (percentile sortedRtts 95),
                p99Ms = the (percentile sortedRtts 99)\<rparr>))"

definition calculateJitter :: "metricsCalculator \<Rightarrow> jitter" where
  "calculateJitter st =
     (if length (jitterSamples st) = 0 then \<lparr>meanMs = 0, jitter_p95Ms = 0\<rparr>
      else (let sortedJitter = sort (jitterSamples st)
            in \<lparr>meanMs = jitterEstimate st,
                jitter_p95Ms = the (percentile sortedJitter 95)\<rparr>))"

definition calculatePacketLoss :: "metricsCalculator \<Rightarrow> real" where
  "calculatePacketLoss st =
     (if sentEchoes st = 0 then 0
      else (real (lostEchoes st) / real (sentEchoes st)) * 100)"

text \<open>\<open>Math.round\<close>: the nearest integer, a half rounded up.\<close>

definition Math_round :: "real \<Rightarrow> int" where
  "Math_round x = \<lfloor>x + 1 / 2\<rfloor>"

definition calculateStability :: "int \<Rightarrow> metricsCalculator \<Rightarrow> int" where
  "calculateStability warmupMs st =
     (let throughput' = calculateThroughput warmupMs st;
          latency' = calculateLatency st;
          cv = (if avgMbps throughput' > 0
                then \<bar>medianMbps throughput' - avgMbps throughput'\<bar> / avgMbps throughput'
                else 0);
          latencyPenalty = min (p95Ms latency' / 10) 50;
          score = max 0 (min 100 (100 - (cv * 100) - latencyPenalty))
      in Math_round score)"


section \<open>The echo probes of the orchestrator (TestOrchestrator)\<close>

text \<open>
  The pending set is the JavaScript \<open>Map\<close> from sequence numbers to pending probes, kept
  as an association list in insertion order. The timers that \<open>setTimeout\<close> has armed
  and that have neither fired nor been cleared are the set \<open>timers\<close>; the handle of the
  timer of a probe is opaque in the source and is identified here with the sequence number
  of the probe. \<open>emit\<close> appends the event to the list of emitted events; the payload of
  a metrics event is \<open>getMetrics()\<close> of the state it is emitted in and is not stored.
\<close>

datatype event =
  PhaseChange string | Capabilities | MetricsUpdate | Complete | Cancelled | ErrorEvent string

record pendingEcho =
  pe_timestamp :: int
  timeoutId :: nat

record testOrchestrator =
  phase :: "string option"
  abortController :: "bool option"
  metrics :: metricsCalculator
  concurrency :: nat
  ws :: "bool option"
  echoTimer :: bool
  echoSeq :: nat
  pendingEchoes :: "(nat \<times> pendingEcho) list"
  timers :: "nat set"
  emitted :: "event list"

definition DEFAULT_CONCURRENCY :: nat where "DEFAULT_CONCURRENCY = 6"
definition MAX_CONCURRENCY :: nat where "MAX_CONCURRENCY = 12"
definition SAMPLE_INTERVAL :: int where "SAMPLE_INTERVAL = 250"

text \<open>
  \<open>abortController\<close>: \<open>None\<close> is \<open>null\<close>, \<open>Some b\<close> a controller whose signal has
  \<open>aborted = b\<close>. \<open>ws\<close>: \<open>None\<close> is \<open>null\<close>, \<open>Some b\<close> a socket with
  \<open>readyState = OPEN\<close> exactly when \<open>b\<close>. The constructor state has no event emitted.
  \<open>reset\<close> of the orchestrator keeps the emitted events, which are what the listeners have
  seen, and the timers of the runtime. \<open>cleanup\<close> aborts the controller before it drops
  it; the requests in flight hold its signal, and their scripts say how they end.
\<close>

definition new_orchestrator :: testOrchestrator where
  "new_orchestrator =
     \<lparr>phase = None, abortController = None, metrics = reset,
      concurrency = DEFAULT_CONCURRENCY, ws = None, echoTimer = False, echoSeq = 0,
      pendingEchoes = [], timers = {}, emitted = []\<rparr>"

definition reset_orchestrator :: "testOrchestrator \<Rightarrow> testOrchestrator" where
  "reset_orchestrator orch =
     orch\<lparr>phase := None, abortController := None, metrics := reset,
          concurrency := DEFAULT_CONCURRENCY, ws := None, echoTimer := False, echoSeq := 0,
          pendingEchoes := []\<rparr>"

definition emit :: "event \<Rightarrow> testOrchestrator \<Rightarrow> testOrchestrator" where
  "emit ev orch = orch\<lparr>emitted := emitted orch @ [ev]\<rparr>"

definition has :: "(nat \<times> pendingEcho) list \<Rightarrow> nat \<Rightarrow> bool" where
  "has m k = (map_of m k \<noteq> None)"

definition sendEcho :: "int \<Rightarrow> testOrchestrator \<Rightarrow> testOrchestrator" where
  "sendEcho now orch =
     (let seq = echoSeq orch;
          orch1 = orch\<lparr>echoSeq := seq + 1\<rparr>;
          orch2 = orch1\<lparr>timers := insert seq (timers orch1)\<rparr>
      in orch2\<lparr>pendingEchoes :=
                 AList.update seq \<lparr>pe_timestamp = now, timeoutId = seq\<rparr> (pendingEchoes orch2)\<rparr>)"

text \<open>The function that \<open>sendEcho\<close> hands to \<open>setTimeout\<close> for the probe \<open>seq\<close>.\<close>

definition echoTimeout :: "nat \<Rightarrow> testOrchestrator \<Rightarrow> testOrchestrator" where
  "echoTimeout seq orch =
     (if has (pendingEchoes orch) seq
      then (let orch1 = orch\<lparr>pendingEchoes := AList.delete seq (pendingEchoes orch)\<rparr>;
                orch2 = orch1\<lparr>metrics := addLostEcho (metrics orch1)\<rparr>
            in emit MetricsUpdate orch2)
      else orch)"

text \<open>
  \<open>handleEchoResponse\<close> after the text of the message is there: \<open>None\<close> is a text that
  \<open>JSON.parse\<close> rejects (the exception is caught and logged), \<open>Some (seq, sendTime)\<close>
  the two fields read from the parsed message; \<open>receiveTime\<close> is \<open>Date.now()\<close>.
\<close>

definition handleEchoResponse :: "(nat \<times> int) option \<Rightarrow> int \<Rightarrow> testOrchestrator \<Rightarrow> testOrchestrator" where
  "handleEchoResponse data receiveTime orch =
     (case data of
        None \<Rightarrow> orch
      | Some (seq, sendTime) \<Rightarrow>
          (case map_of (pendingEchoes orch) seq of
             None \<Rightarrow> orch
           | Some pe \<Rightarrow>
               (let orch1 = orch\<lparr>timers := timers orch - {timeoutId pe}\<rparr>;
                    orch2 = orch1\<lparr>pendingEchoes := AList.delete seq (pendingEchoes orch1)\<rparr>;
                    rtt' = real_of_int (receiveTime - sendTime);
                    orch3 = orch2\<lparr>metrics := addRttSample rtt' receiveTime (metrics orch2)\<rparr>
                in emit MetricsUpdate orch3)))"

definition cleanup :: "testOrchestrator \<Rightarrow> testOrchestrator" where
  "cleanup orch =
     orch\<lparr>ws := None, echoTimer := False,
          timers := timers orch - set (map (timeoutId \<circ> snd) (pendingEchoes orch)),
          pendingEchoes := [],
          abortController := None\<rparr>"

definition stop :: "testOrchestrator \<Rightarrow> testOrchestrator" where
  "stop orch =
     cleanup (case abortController orch of
                None \<Rightarrow> orch
              | Some _ \<Rightarrow> orch\<lparr>abortController := Some True\<rparr>)"

text \<open>
  What the event loop runs, one callback at a time: the interval callback of the echo loop
  (it sends only on an open socket), the timeout of the probe \<open>seq\<close> (a timer fires at
  most once, and not after \<open>clearTimeout\<close>), a message on the socket, and \<open>cleanup\<close>.
\<close>

datatype callback =
  EchoTick int | TimeoutFires nat | Message "(nat \<times> int) option" int | Cleanup

fun deliver :: "callback \<Rightarrow> testOrchestrator \<Rightarrow> testOrchestrator" where
  "deliver (EchoTick now) orch =
     (if echoTimer orch \<and> ws orch = Some True then sendEcho now orch else orch)"
| "deliver (TimeoutFires seq) orch =
     (if seq \<in> timers orch then echoTimeout seq (orch\<lparr>timers := timers orch - {seq}\<rparr>) else orch)"
| "deliver (Message data receiveTime) orch = handleEchoResponse data receiveTime orch"
| "deliver Cleanup orch = cleanup orch"

fun deliver_all :: "callback list \<Rightarrow> testOrchestrator \<Rightarrow> testOrchestrator" where
  "deliver_all [] orch = orch"
| "deliver_all (c # cs) orch = deliver_all cs (deliver c orch)"

text \<open>An orchestrator whose echo loop runs on an open socket, before its first probe.\<close>

definition echo_ready :: testOrchestrator where
  "echo_ready = new_orchestrator\<lparr>abortController := Some False, ws := Some True, echoTimer := True\<rparr>"

text \<open>
  The outcomes of the probe with sequence number \<open>q\<close> along a run of callbacks: the
  number of round-trip samples that the messages carrying \<open>q\<close> add, and the number of
  lost echoes that the timeouts of \<open>q\<close> add.
\<close>

fun rttProduced :: "nat \<Rightarrow> callback list \<Rightarrow> testOrchestrator \<Rightarrow> nat" where
  "rttProduced q [] orch = 0"
| "rttProduced q (c # cs) orch =
     (case c of
        Message (Some (seq, sendTime)) receiveTime \<Rightarrow>
          (if seq = q
           then length (rttSamples (metrics (deliver c orch))) - length (rttSamples (metrics orch))
           else 0)
      | _ \<Rightarrow> 0) + rttProduced q cs (deliver c orch)"

fun lostProduced :: "nat \<Rightarrow> callback list \<Rightarrow> testOrchestrator \<Rightarrow> nat" where
  "lostProduced q [] orch = 0"
| "lostProduced q (c # cs) orch =
     (case c of
        TimeoutFires seq \<Rightarrow>
          (if seq = q
           then lostEchoes (metrics (deliver c orch)) - lostEchoes (metrics orch)
           else 0)
      | _ \<Rightarrow> 0) + lostProduced q cs (deliver c orch)"


section \<open>The rules of the specification, for comparison\<close>

text \<open>
  The throughput rule in the words of the specification: after sorting and after the
  warm-up discard, the window of an anchor holds every remaining sample whose timestamp
  lies in the \<open>w\<close> milliseconds that start at the timestamp of the anchor.
\<close>

definition spec_windowBytes :: "int \<Rightarrow> throughputSample list \<Rightarrow> throughputSample \<Rightarrow> nat" where
  "spec_windowBytes w samples anchor =
     sum_list (map bytes
       (filter (\<lambda>s. timestamp anchor \<le> timestamp s \<and> timestamp s < timestamp anchor + w) samples))"

definition spec_windowRates :: "int \<Rightarrow> throughputSample list \<Rightarrow> real list" where
  "spec_windowRates w samples =
     map (\<lambda>anchor. real (spec_windowBytes w samples anchor) * 8 / 1000000 / (real_of_int w / 1000))
       samples"

definition spec_calculateThroughput :: "int \<Rightarrow> throughputSample list \<Rightarrow> throughput" where
  "spec_calculateThroughput warmupMs samples =
     (if samples = [] then zeroThroughput
      else (let sorted' = sort_key timestamp samples;
                remaining = filter (\<lambda>s. \<not> timestamp s < timestamp (hd sorted') + warmupMs) sorted'
            in if remaining = [] then zeroThroughput
               else rateStatistics (spec_windowRates 1000 remaining)))"

text \<open>
  The bytes of the samples from position \<open>i\<close> on, in the sorted order, whose timestamp is
  less than \<open>w\<close> milliseconds after that of the sample at position \<open>i\<close>.
\<close>

definition forwardWindowBytes :: "int \<Rightarrow> throughputSample list \<Rightarrow> nat \<Rightarrow> nat" where
  "forwardWindowBytes w samples i =
     sum_list (map bytes
       (filter (\<lambda>s. timestamp s < timestamp (samples ! i) + w) (drop i samples)))"

text \<open>
  The jitter recurrence in the words of the specification: the first sample sets the
  previous round-trip time, every later one gives \<open>D = |rtt - previous|\<close> and moves the
  estimate by a sixteenth of its distance to \<open>D\<close>.
\<close>

fun spec_jitter :: "real \<Rightarrow> real \<Rightarrow> real list \<Rightarrow> real" where
  "spec_jitter J previous [] = J"
| "spec_jitter J previous (r # rs) = spec_jitter (J + (\<bar>r - previous\<bar> - J) / 16) r rs"

definition spec_jitterEstimate :: "real list \<Rightarrow> real" where
  "spec_jitterEstimate rtts = (case rtts of [] \<Rightarrow> 0 | r # rs \<Rightarrow> spec_jitter 0 r rs)"

fun spec_differences :: "real \<Rightarrow> real list \<Rightarrow> real list" where
  "spec_differences previous [] = []"
| "spec_differences previous (r # rs) = \<bar>r - previous\<bar> # spec_differences r rs"

definition spec_jitterSamples :: "real list \<Rightarrow> real list" where
  "spec_jitterSamples rtts = (case rtts of [] \<Rightarrow> [] | r # rs \<Rightarrow> spec_differences r rs)"

text \<open>Feeding a sequence of round-trip times to \<open>addRttSample\<close>, one call per element.\<close>

fun addRttSamples :: "(real \<times> int) list \<Rightarrow> metricsCalculator \<Rightarrow> metricsCalculator" where
  "addRttSamples [] st = st"
| "addRttSamples ((r, t) # rs) st = addRttSamples rs (addRttSample r t st)"

text \<open>
  The pending set has one entry per sequence number, and only sequence numbers that
  \<open>sendEcho\<close> has handed out.
\<close>

definition echo_inv :: "testOrchestrator \<Rightarrow> bool" where
  "echo_inv orch =
     (distinct (map fst (pendingEchoes orch))
      \<and> (\<forall>k. has (pendingEchoes orch) k \<longrightarrow> k < echoSeq orch))"

section \<open>Stream tasks and the phases of a run (TestOrchestrator)\<close>

text \<open>
  A thrown JavaScript error is a value with its \<open>name\<close> and its \<open>message\<close>. What the
  network and the clock do is given to each function as a script. The stream tasks of one
  phase run concurrently in the source (\<open>Promise.all\<close>); here they run one after the
  other, by stream number, so the order in which the samples of different streams enter the
  list is one of the orders that the source can produce, and what is stated about the
  samples of a phase is stated up to their order. The callbacks of the echo loop are not
  interleaved with the streams.
\<close>

datatype exn = Exn (exn_name: string) (exn_message: string)

text \<open>
  One download stream: \<open>fetched\<close> is the outcome of \<open>createDownloadStream\<close> (it rejects,
  or there is a response with its \<open>ok\<close> flag), \<open>firstClock\<close> the clock when
  \<open>lastSampleTime\<close> is set, \<open>chunksRead\<close> the chunks that \<open>reader.read()\<close> delivers,
  each with its length and the clock after it, and \<open>lastRead\<close> the read after those
  (it rejects, or it reports \<open>done\<close>, with the clock for the final bucket).
\<close>

record downloadScript =
  fetched :: "exn + bool"
  firstClock :: int
  chunksRead :: "(nat \<times> int) list"
  lastRead :: "exn + int"

fun downloadLoop ::
  "bool \<Rightarrow> (nat \<times> int) list \<Rightarrow> nat \<Rightarrow> int \<Rightarrow> testOrchestrator \<Rightarrow> nat \<times> testOrchestrator" where
  "downloadLoop isWarmup [] bucketBytes lastSampleTime orch = (bucketBytes, orch)"
| "downloadLoop isWarmup ((len, clock) # rest) bucketBytes lastSampleTime orch =
     (if clock - lastSampleTime \<ge> SAMPLE_INTERVAL
      then downloadLoop isWarmup rest 0 clock
             (if \<not> isWarmup
              then emit MetricsUpdate
                     (orch\<lparr>metrics := addThroughputSample (bucketBytes + len) clock (metrics orch)\<rparr>)
              else orch)
      else downloadLoop isWarmup rest (bucketBytes + len) lastSampleTime orch)"

text \<open>
  The whole body of \<open>runSingleDownloadStream\<close> is inside \<open>try\<close>, and the \<open>catch\<close> only
  logs: whatever is thrown, the function returns, with the samples recorded so far. With
  \<open>abortController = null\<close> the read of \<open>this.abortController.signal\<close> throws.
\<close>

definition runSingleDownloadStream ::
  "nat \<Rightarrow> int \<Rightarrow> bool \<Rightarrow> downloadScript \<Rightarrow> testOrchestrator \<Rightarrow> testOrchestrator" where
  "runSingleDownloadStream streamId durationSec isWarmup script orch =
     (case abortController orch of
        None \<Rightarrow> orch
      | Some aborted \<Rightarrow>
          (case fetched script of
             Inl e \<Rightarrow> orch
           | Inr ok \<Rightarrow>
               if \<not> ok then orch
               else (case downloadLoop isWarmup (chunksRead script) 0 (firstClock script) orch of
                       (bucketBytes, orch1) \<Rightarrow>
                         (case lastRead script of
                            Inl e \<Rightarrow> orch1
                          | Inr clock \<Rightarrow>
                              if bucketBytes > 0 \<and> \<not> isWarmup
                              then orch1\<lparr>metrics := addThroughputSample bucketBytes clock (metrics orch1)\<rparr>
                              else orch1))))"

definition runDownloadStreams ::
  "nat \<Rightarrow> int \<Rightarrow> bool \<Rightarrow> (nat \<Rightarrow> downloadScript) \<Rightarrow> testOrchestrator \<Rightarrow> testOrchestrator" where
  "runDownloadStreams numStreams duration isWarmup scripts orch =
     fold (\<lambda>i. runSingleDownloadStream i \<lceil>real_of_int duration / 1000\<rceil> isWarmup (scripts i))
       [0..<numStreams] orch"

text \<open>
  One upload stream: an iteration of its loop reads the clock in the loop condition, awaits
  the \<open>fetch\<close> (it rejects, or there is a response with its \<open>ok\<close> flag) and reads the
  clock for the sample. The script lists the iterations that are entered; after its last
  one the clock has passed \<open>endTime\<close>.
\<close>

record uploadIteration =
  guardClock :: int
  posted :: "exn + bool"
  sampleClock :: int

definition chunkSize :: nat where "chunkSize = 64 * 1024"

fun uploadLoop :: "int \<Rightarrow> uploadIteration list \<Rightarrow> testOrchestrator \<Rightarrow> testOrchestrator" where
  "uploadLoop endTime [] orch = orch"
| "uploadLoop endTime (it # its) orch =
     (if guardClock it < endTime \<and> (abortController orch = None \<or> abortController orch = Some False)
      then (case posted it of
              Inl e \<Rightarrow> orch
            | Inr ok \<Rightarrow>
                if \<not> ok then orch
                else uploadLoop endTime its
                       (emit MetricsUpdate
                          (orch\<lparr>metrics := addThroughputSample chunkSize (sampleClock it) (metrics orch)\<rparr>)))
      else orch)"

definition runSingleUploadStream ::
  "nat \<Rightarrow> int \<Rightarrow> int \<times> uploadIteration list \<Rightarrow> testOrchestrator \<Rightarrow> testOrchestrator" where
  "runSingleUploadStream streamId duration script orch =
     (case script of (startTime, iterations) \<Rightarrow> uploadLoop (startTime + duration) iterations orch)"

definition runUploadStreams ::
  "nat \<Rightarrow> int \<Rightarrow> (nat \<Rightarrow> int \<times> uploadIteration list) \<Rightarrow> testOrchestrator \<Rightarrow> testOrchestrator" where
  "runUploadStreams numStreams duration scripts orch =
     fold (\<lambda>i. runSingleUploadStream i duration (scripts i)) [0..<numStreams] orch"







text \<open>
  The phases. A phase that can throw returns the error, if any, with the state.
  \<open>capabilitiesResult\<close> is the outcome of \<open>getCapabilities\<close>: it rejects, or it gives the
  \<open>maxConcurrency\<close> of the answer (0 when the field is absent). \<open>runMeasure\<close> is
  written once for each of its two directions, whose scripts differ in type.
\<close>

definition runDiscovery :: "exn + nat \<Rightarrow> testOrchestrator \<Rightarrow> exn option \<times> testOrchestrator" where
  "runDiscovery capabilitiesResult orch =
     (let orch1 = emit (PhaseChange ''discovery'') (orch\<lparr>phase := Some ''discovery''\<rparr>)
      in case capabilitiesResult of
           Inl e \<Rightarrow> (Some (Exn ''Error'' (''Discovery failed: '' @ exn_message e)), orch1)
         | Inr maxConcurrency \<Rightarrow>
             (None,
              emit Capabilities
                (orch1\<lparr>concurrency :=
                   min (if maxConcurrency = 0 then DEFAULT_CONCURRENCY else maxConcurrency)
                       MAX_CONCURRENCY\<rparr>)))"

definition startEchoLoop :: "testOrchestrator \<Rightarrow> testOrchestrator" where
  "startEchoLoop orch = orch\<lparr>echoTimer := True\<rparr>"

text \<open>
  What becomes of the echo connection: \<open>onopen\<close> fires, \<open>onerror\<close> fires first, the
  socket is not open after 5 seconds, or \<open>createWebSocket\<close> throws (then \<open>ws\<close> is not
  assigned and the promise rejects with the error that was thrown).
\<close>

datatype socketOutcome = Opens | Fails | TimesOut | Throws exn

definition startLatencyTest :: "socketOutcome \<Rightarrow> testOrchestrator \<Rightarrow> exn option \<times> testOrchestrator" where
  "startLatencyTest outcome orch =
     (case outcome of
        Opens \<Rightarrow> (None, startEchoLoop (orch\<lparr>ws := Some True\<rparr>))
      | Fails \<Rightarrow>
          (Some (Exn ''Error''
                   ''WebSocket connection failed. Check that backend is running on port 3000.''),
           orch\<lparr>ws := Some False\<rparr>)
      | TimesOut \<Rightarrow>
          (Some (Exn ''Error'' ''WebSocket connection timeout. Is the backend running?''),
           orch\<lparr>ws := Some False\<rparr>)
      | Throws e \<Rightarrow> (Some e, orch))"

definition runWarmup :: "(nat \<Rightarrow> downloadScript) \<Rightarrow> testOrchestrator \<Rightarrow> testOrchestrator" where
  "runWarmup scripts orch =
     (let orch1 = emit (PhaseChange ''warmup'') (orch\<lparr>phase := Some ''warmup''\<rparr>);
          initialStreams = max 2 (concurrency orch1 div 2)
      in runDownloadStreams initialStreams 2000 True scripts orch1)"

definition runRamp :: "(nat \<Rightarrow> downloadScript) \<Rightarrow> testOrchestrator \<Rightarrow> testOrchestrator" where
  "runRamp scripts orch =
     (let orch1 = emit (PhaseChange ''ramp'') (orch\<lparr>phase := Some ''ramp''\<rparr>)
      in runDownloadStreams (concurrency orch1) 2000 False scripts orch1)"

definition runMeasureDownload ::
  "int \<Rightarrow> (nat \<Rightarrow> downloadScript) \<Rightarrow> testOrchestrator \<Rightarrow> testOrchestrator" where
  "runMeasureDownload duration scripts orch =
     (let orch1 = emit (PhaseChange ''measure-download'') (orch\<lparr>phase := Some ''measure-download''\<rparr>)
      in runDownloadStreams (concurrency orch1) duration False scripts orch1)"

definition runMeasureUpload ::
  "int \<Rightarrow> (nat \<Rightarrow> int \<times> uploadIteration list) \<Rightarrow> testOrchestrator \<Rightarrow> testOrchestrator" where
  "runMeasureUpload duration scripts orch =
     (let orch1 = emit (PhaseChange ''measure-upload'') (orch\<lparr>phase := Some ''measure-upload''\<rparr>)
      in runUploadStreams (concurrency orch1) duration scripts orch1)"

definition runCooldown :: "testOrchestrator \<Rightarrow> testOrchestrator" where
  "runCooldown orch = emit (PhaseChange ''cooldown'') (orch\<lparr>phase := Some ''cooldown''\<rparr>)"

text \<open>
  A run: what the outside world does during it, and \<open>stopDuring\<close>, the \<open>await\<close> of
  \<open>start\<close> during which the user calls \<open>stop()\<close>, if at all (0 discovery, 1 the echo
  connection, 2 warm-up, 3 ramp, 4 measure-download, 5 measure-upload, 6 cooldown).
  \<open>stop()\<close> runs while \<open>start\<close> is suspended in that \<open>await\<close>; the scripts of the phase
  say how its streams end.
\<close>

record runEnv =
  optionsDuration :: int
  capabilitiesResult :: "exn + nat"
  socketResult :: socketOutcome
  warmupStreams :: "nat \<Rightarrow> downloadScript"
  rampStreams :: "nat \<Rightarrow> downloadScript"
  measureDownloadStreams :: "nat \<Rightarrow> downloadScript"
  measureUploadStreams :: "nat \<Rightarrow> int \<times> uploadIteration list"
  stopDuring :: "nat option"

definition userStop :: "runEnv \<Rightarrow> nat \<Rightarrow> testOrchestrator \<Rightarrow> testOrchestrator" where
  "userStop env k orch = (if stopDuring env = Some k then stop orch else orch)"

text \<open>The \<open>try\<close> block of \<open>start\<close>: the thrown error, if any, and the state.\<close>

definition tryBlock :: "runEnv \<Rightarrow> testOrchestrator \<Rightarrow> exn option \<times> testOrchestrator" where
  "tryBlock env orch =
     (let testDuration = (if optionsDuration env = 0 then 5000 else optionsDuration env)
      in case runDiscovery (capabilitiesResult env) orch of
           (Some e, orch1) \<Rightarrow> (Some e, userStop env 0 orch1)
         | (None, orch1) \<Rightarrow>
             (case startLatencyTest (socketResult env) (userStop env 0 orch1) of
                (Some e, orch2) \<Rightarrow> (Some e, userStop env 1 orch2)
              | (None, orch2) \<Rightarrow>
                  (let orch3 = userStop env 2 (runWarmup (warmupStreams env) (userStop env 1 orch2));
                       orch4 = userStop env 3 (runRamp (rampStreams env) orch3);
                       orch5 = userStop env 4
                                 (runMeasureDownload testDuration (measureDownloadStreams env) orch4);
                       orch6 = userStop env 5
                                 (runMeasureUpload testDuration (measureUploadStreams env) orch5);
                       orch7 = userStop env 6 (runCooldown orch6)
                   in (None, emit Complete orch7))))"

definition start :: "runEnv \<Rightarrow> testOrchestrator \<Rightarrow> testOrchestrator" where
  "start env orch =
     (case tryBlock env ((reset_orchestrator orch)\<lparr>abortController := Some False\<rparr>) of
        (thrown, orch1) \<Rightarrow>
          cleanup
            (case thrown of
               None \<Rightarrow> orch1
             | Some e \<Rightarrow>
                 if exn_name e = ''AbortError'' then emit Cancelled orch1
                 else emit (ErrorEvent (exn_message e)) orch1))"

text \<open>
  A run in which the server answers every request at once and the user stops the test
  during the measure-download phase: every download stream of that phase ends with the
  \<open>AbortError\<close> of its aborted \<open>fetch\<close>, and the upload streams that are started
  afterwards each post chunks until their time is over.
\<close>

definition quietDownload :: downloadScript where
  "quietDownload = \<lparr>fetched = Inr True, firstClock = 0, chunksRead = [], lastRead = Inr 0\<rparr>"

definition abortedDownload :: downloadScript where
  "abortedDownload =
     \<lparr>fetched = Inl (Exn ''AbortError'' ''The user aborted a request.''), firstClock = 0,
      chunksRead = [], lastRead = Inr 0\<rparr>"

definition stoppedRun :: runEnv where
  "stoppedRun =
     \<lparr>optionsDuration = 0, capabilitiesResult = Inr 1, socketResult = Opens,
      warmupStreams = (\<lambda>i. quietDownload), rampStreams = (\<lambda>i. quietDownload),
      measureDownloadStreams = (\<lambda>i. abortedDownload),
      measureUploadStreams =
        (\<lambda>i. (9000, [\<lparr>guardClock = 9000, posted = Inr True, sampleClock = 9100\<rparr>])),
      stopDuring = Some 4\<rparr>"

section \<open>The download and upload services (server.js)\<close>

definition MAX_BYTES_PER_STREAM :: nat where
  "MAX_BYTES_PER_STREAM = 25 * 1024 * 1024"

definition CHUNK_SIZE :: nat where
  "CHUNK_SIZE = 256 * 1024"

text \<open>
  \<open>Math.min(parseInt(req.query.seconds) || 15, 120)\<close>: the argument is the result of
  \<open>parseInt\<close>, \<open>None\<close> for \<open>NaN\<close> (a missing parameter or one that does not start with a
  number). \<open>NaN\<close> and 0 are falsy, so both give the default.
\<close>

definition downloadSeconds :: "int option \<Rightarrow> int" where
  "downloadSeconds parsed =
     min (case parsed of None \<Rightarrow> 15 | Some n \<Rightarrow> if n = 0 then 15 else n) 120"

text \<open>
  The response of a download: the bytes sent, the lengths of the chunks handed to
  \<open>res.write\<close>, the \<open>writableEnded\<close> flag, which \<open>res.end()\<close> sets and nothing else
  does, and the counter of bytes served. The refresh of the random buffer changes the
  bytes, not their number, and is left out.
\<close>

record downloadStream =
  bytesSent :: nat
  writes :: "nat list"
  writableEnded :: bool
  bytesServed :: nat

definition stopNow :: "int \<Rightarrow> int \<Rightarrow> downloadStream \<Rightarrow> bool" where
  "stopNow endTime clock s =
     (clock \<ge> endTime \<or> bytesSent s \<ge> MAX_BYTES_PER_STREAM \<or> writableEnded s)"

text \<open>
  One call of \<open>sendChunk\<close> at the clock reading \<open>clock\<close>: the new state, and whether
  the function has scheduled itself again (at once or at the next \<open>drain\<close>).
\<close>

definition sendChunk :: "int \<Rightarrow> int \<Rightarrow> downloadStream \<Rightarrow> bool \<times> downloadStream" where
  "sendChunk endTime clock s =
     (if stopNow endTime clock s
      then (False,
            (if \<not> writableEnded s then s\<lparr>writableEnded := True\<rparr> else s)
              \<lparr>bytesServed := bytesServed s + bytesSent s\<rparr>)
      else (let chunkToSend =
                  (if bytesSent s + CHUNK_SIZE > MAX_BYTES_PER_STREAM
                   then MAX_BYTES_PER_STREAM - bytesSent s
                   else CHUNK_SIZE)
            in (True, s\<lparr>writes := writes s @ [chunkToSend], bytesSent := bytesSent s + chunkToSend\<rparr>)))"

text \<open>The handler of the \<open>close\<close> event of the response.\<close>

definition closeHandler :: "downloadStream \<Rightarrow> downloadStream" where
  "closeHandler s =
     (if \<not> writableEnded s then s\<lparr>bytesServed := bytesServed s + bytesSent s\<rparr> else s)"

text \<open>
  What happens to a download, in its order: a scheduled call of \<open>sendChunk\<close> runs, with
  its clock reading, or the caller closes the connection and the \<open>close\<close> handler runs.
  When the list is used up the loop is suspended (a \<open>drain\<close> that has not come). After
  \<open>res.end()\<close> no call is scheduled any more, and the \<open>close\<close> handler does nothing.
\<close>

datatype downloadEvent = Call int | CallerCloses

fun runDownload :: "int \<Rightarrow> downloadEvent list \<Rightarrow> downloadStream \<Rightarrow> downloadStream" where
  "runDownload endTime [] s = s"
| "runDownload endTime (CallerCloses # es) s = runDownload endTime es (closeHandler s)"
| "runDownload endTime (Call clock # es) s =
     (case sendChunk endTime clock s of
        (True, s1) \<Rightarrow> runDownload endTime es s1
      | (False, s1) \<Rightarrow> s1)"

text \<open>The handler of \<open>GET /download\<close> for a request that passes the rate limit.\<close>

definition download :: "int option \<Rightarrow> int \<Rightarrow> downloadEvent list \<Rightarrow> downloadStream" where
  "download parsed startClock es =
     runDownload (startClock + downloadSeconds parsed * 1000) es
       \<lparr>bytesSent = 0, writes = [], writableEnded = False, bytesServed = 0\<rparr>"

text \<open>The clock readings of the calls of \<open>sendChunk\<close> among the events.\<close>

fun calls :: "downloadEvent list \<Rightarrow> int list" where
  "calls [] = []"
| "calls (Call clock # es) = clock # calls es"
| "calls (CallerCloses # es) = calls es"

text \<open>
  The upload request: what the handlers of its events do to the counter, to the stream and
  to the response. \<open>TooLarge\<close> is the answer with status 413.
\<close>

datatype response = Json nat int | TooLarge

record uploadRequest =
  receivedBytes :: nat
  paused :: bool
  destroyed :: bool
  responded :: "response option"

datatype requestEvent = Data nat | End int | Close

definition newUpload :: uploadRequest where
  "newUpload = \<lparr>receivedBytes = 0, paused = False, destroyed = False, responded = None\<rparr>"

text \<open>The three handlers of \<open>POST /upload\<close> in server.js.\<close>

fun uploadHandler :: "int \<Rightarrow> requestEvent \<Rightarrow> uploadRequest \<Rightarrow> uploadRequest" where
  "uploadHandler startTime (Data len) r =
     (let r1 = r\<lparr>receivedBytes := receivedBytes r + len\<rparr>
      in if receivedBytes r1 > MAX_BYTES_PER_STREAM then r1\<lparr>paused := True\<rparr> else r1)"
| "uploadHandler startTime (End clock) r =
     r\<lparr>responded := Some (Json (receivedBytes r) (clock - startTime))\<rparr>"
| "uploadHandler startTime Close r = r"

text \<open>The \<open>data\<close> handler that \<open>createUploadLimiter maxBytes\<close> installs.\<close>

fun uploadLimiter :: "nat \<Rightarrow> requestEvent \<Rightarrow> uploadRequest \<Rightarrow> uploadRequest" where
  "uploadLimiter maxBytes (Data len) r =
     (let r1 = r\<lparr>receivedBytes := receivedBytes r + len\<rparr>
      in if receivedBytes r1 > maxBytes
         then r1\<lparr>paused := True, responded := Some TooLarge, destroyed := True\<rparr>
         else r1)"
| "uploadLimiter maxBytes (End clock) r = r"
| "uploadLimiter maxBytes Close r = r"

text \<open>The events of a request, handed to a handler in their order.\<close>

fun events :: "(requestEvent \<Rightarrow> uploadRequest \<Rightarrow> uploadRequest) \<Rightarrow> requestEvent list
                 \<Rightarrow> uploadRequest \<Rightarrow> uploadRequest" where
  "events handler [] r = r"
| "events handler (e # es) r = events handler es (handler e r)"

text \<open>No \<open>cancelled\<close> event has been emitted.\<close>

definition quiet :: "testOrchestrator \<Rightarrow> bool" where
  "quiet orch = (Cancelled \<notin> set (emitted orch))"

section \<open>Percentiles\<close>


lemma js_nth_Some: "0 \<le> i \<Longrightarrow> i < int (length xs) \<Longrightarrow> js_nth xs i = Some (xs ! nat i)"
  by (simp add: js_nth_def)

lemma percentile_index_bounds:
  assumes "0 \<le> p" "p \<le> 100" "xs \<noteq> []"
  shows "0 \<le> \<lfloor>(p / 100) * real (length xs - 1)\<rfloor>"
    and "\<lceil>(p / 100) * real (length xs - 1)\<rceil> < int (length xs)"
    and "\<lfloor>(p / 100) * real (length xs - 1)\<rfloor> < int (length xs)"
proof -
  let ?n = "real (length xs - 1)"
  let ?i = "(p / 100) * ?n"
  have n0: "0 \<le> ?n" by simp
  have p1: "p / 100 \<le> 1" "0 \<le> p / 100" using assms by simp_all
  have i0: "0 \<le> ?i" using p1 n0 by simp
  have i1: "?i \<le> ?n" using mult_left_le_one_le[OF n0 p1(2) p1(1)] by (simp add: mult.commute)
  show "0 \<le> \<lfloor>?i\<rfloor>" using i0 by simp
  have "\<lceil>?i\<rceil> \<le> \<lceil>?n\<rceil>" using i1 by (rule ceiling_mono)
  also have "\<lceil>?n\<rceil> = int (length xs - 1)" by simp
  also have "\<dots> < int (length xs)" using assms(3) by (cases xs) simp_all
  finally show c: "\<lceil>?i\<rceil> < int (length xs)" .
  have "\<lfloor>?i\<rfloor> \<le> \<lceil>?i\<rceil>" by (rule floor_le_ceiling)
  thus "\<lfloor>?i\<rfloor> < int (length xs)" using c by linarith
qed

lemma percentile_formula:
  assumes "0 \<le> p" "p \<le> 100" "xs \<noteq> []"
  shows "percentile xs p =
           Some (xs ! nat \<lfloor>(p / 100) * real (length xs - 1)\<rfloor>
                   * (1 - ((p / 100) * real (length xs - 1) - of_int \<lfloor>(p / 100) * real (length xs - 1)\<rfloor>))
                 + xs ! nat \<lceil>(p / 100) * real (length xs - 1)\<rceil>
                   * ((p / 100) * real (length xs - 1) - of_int \<lfloor>(p / 100) * real (length xs - 1)\<rfloor>))"
proof (cases "length xs = 1")
  case True
  then show ?thesis by (simp add: percentile_def)
next
  case False
  with assms(3) have "length xs \<noteq> 0" by simp
  note b = percentile_index_bounds[OF assms]
  show ?thesis
    using False \<open>length xs \<noteq> 0\<close> js_nth_Some[OF b(1) b(3)]
      js_nth_Some[OF order_trans[OF b(1) floor_le_ceiling] b(2)]
    by (simp add: percentile_def Let_def)
qed

lemma percentile_defined: "0 \<le> p \<Longrightarrow> p \<le> 100 \<Longrightarrow> percentile xs p \<noteq> None"
proof (cases "xs = []")
  case True
  then show ?thesis by (simp add: percentile_def)
next
  case False
  assume "0 \<le> p" "p \<le> 100"
  from percentile_formula[OF this False] show ?thesis by simp
qed

lemma sorted_Min_nth: "sorted xs \<Longrightarrow> xs \<noteq> [] \<Longrightarrow> Min (set xs) = xs ! 0"
  by (cases xs) (auto intro!: Min_eqI)

lemma sorted_Max_nth: "sorted xs \<Longrightarrow> xs \<noteq> [] \<Longrightarrow> Max (set xs) = xs ! (length xs - 1)"
proof -
  assume s: "sorted xs" and n: "xs \<noteq> []"
  have "\<And>y. y \<in> set xs \<Longrightarrow> y \<le> xs ! (length xs - 1)"
  proof -
    fix y assume "y \<in> set xs"
    then obtain i where "i < length xs" "xs ! i = y" by (auto simp: in_set_conv_nth)
    thus "y \<le> xs ! (length xs - 1)" using sorted_nth_mono[OF s, of i "length xs - 1"] by auto
  qed
  moreover have "xs ! (length xs - 1) \<in> set xs" using n by simp
  ultimately show ?thesis by (intro Max_eqI) auto
qed

lemma percentile_0: "xs \<noteq> [] \<Longrightarrow> percentile xs 0 = Some (xs ! 0)"
  using percentile_formula[of 0 xs] by simp

lemma percentile_100: "xs \<noteq> [] \<Longrightarrow> percentile xs 100 = Some (xs ! (length xs - 1))"
  using percentile_formula[of 100 xs] by simp

lemma percentile_integral:
  assumes "0 \<le> p" "p \<le> 100" "xs \<noteq> []" "(p / 100) * real (length xs - 1) = real k"
  shows "percentile xs p = Some (xs ! k)"
  using percentile_formula[OF assms(1-3)] assms(4) by simp

lemma percentile_between:
  assumes "sorted xs" "0 \<le> p" "p \<le> 100" "xs \<noteq> []"
  shows "xs ! nat \<lfloor>(p / 100) * real (length xs - 1)\<rfloor> \<le> the (percentile xs p)"
    and "the (percentile xs p) \<le> xs ! nat \<lceil>(p / 100) * real (length xs - 1)\<rceil>"
proof -
  let ?i = "(p / 100) * real (length xs - 1)"
  let ?w = "?i - of_int \<lfloor>?i\<rfloor>"
  let ?a = "xs ! nat \<lfloor>?i\<rfloor>" and ?b = "xs ! nat \<lceil>?i\<rceil>"
  note b = percentile_index_bounds[OF assms(2-4)]
  have w: "0 \<le> ?w" "?w \<le> 1" by linarith+
  have "nat \<lfloor>?i\<rfloor> \<le> nat \<lceil>?i\<rceil>" using floor_le_ceiling[of ?i] by linarith
  moreover have "nat \<lceil>?i\<rceil> < length xs" using b by linarith
  ultimately have ab: "?a \<le> ?b" using sorted_nth_mono[OF assms(1)] by blast
  have e: "the (percentile xs p) = ?a * (1 - ?w) + ?b * ?w"
    using percentile_formula[OF assms(2-4)] by simp
  have "?a * (1 - ?w) + ?b * ?w = ?a + (?b - ?a) * ?w" by (simp add: algebra_simps)
  moreover have "0 \<le> (?b - ?a) * ?w" using ab w by simp
  moreover have "(?b - ?a) * ?w \<le> (?b - ?a)" using ab w by (simp add: mult_left_le)
  ultimately show "?a \<le> the (percentile xs p)" "the (percentile xs p) \<le> ?b"
    using e by linarith+
qed

text \<open>
  Claim C2. For a sorted, non-empty list and a percentile \<open>p\<close> between 0 and 100, the
  fractional index \<open>p / 100 * (L - 1)\<close> has its floor and its ceiling inside the list,
  and \<open>percentile\<close> returns the interpolation between the two elements there, weighted
  by the fractional part of the index: the element at the index itself when the index is
  integral, and a value between the two elements otherwise. Percentile 0 is the minimum,
  percentile 100 the maximum, and a list of one element gives that element for every
  requested percentile.
\<close>

theorem percentile_interpolates:
  assumes "sorted xs" and "xs \<noteq> []" and "0 \<le> p" and "p \<le> 100"
    and "index = (p / 100) * real (length xs - 1)"
  shows "0 \<le> \<lfloor>index\<rfloor> \<and> \<lceil>index\<rceil> < int (length xs)
       \<and> percentile xs p =
           Some (xs ! nat \<lfloor>index\<rfloor> * (1 - (index - of_int \<lfloor>index\<rfloor>))
                 + xs ! nat \<lceil>index\<rceil> * (index - of_int \<lfloor>index\<rfloor>))
       \<and> (index = real k \<longrightarrow> percentile xs p = Some (xs ! k))
       \<and> xs ! nat \<lfloor>index\<rfloor> \<le> the (percentile xs p)
       \<and> the (percentile xs p) \<le> xs ! nat \<lceil>index\<rceil>
       \<and> percentile xs 0 = Some (Min (set xs))
       \<and> percentile xs 100 = Some (Max (set xs))
       \<and> (length xs = 1 \<longrightarrow> percentile xs q = Some (xs ! 0))"
proof -
  note i = assms(5)
  have a: "0 \<le> \<lfloor>index\<rfloor> \<and> \<lceil>index\<rceil> < int (length xs)"
    unfolding i using percentile_index_bounds[OF assms(3,4,2)] by simp
  have b: "percentile xs p =
           Some (xs ! nat \<lfloor>index\<rfloor> * (1 - (index - of_int \<lfloor>index\<rfloor>))
                 + xs ! nat \<lceil>index\<rceil> * (index - of_int \<lfloor>index\<rfloor>))"
    unfolding i by (rule percentile_formula[OF assms(3,4,2)])
  have c: "index = real k \<longrightarrow> percentile xs p = Some (xs ! k)"
    unfolding i using percentile_integral[OF assms(3,4,2)] by blast
  have d: "xs ! nat \<lfloor>index\<rfloor> \<le> the (percentile xs p)"
          "the (percentile xs p) \<le> xs ! nat \<lceil>index\<rceil>"
    unfolding i using percentile_between[OF assms(1,3,4,2)] by simp_all
  have e: "percentile xs 0 = Some (Min (set xs))"
    using percentile_0[OF assms(2)] sorted_Min_nth[OF assms(1,2)] by simp
  have f: "percentile xs 100 = Some (Max (set xs))"
    using percentile_100[OF assms(2)] sorted_Max_nth[OF assms(1,2)] by simp
  have g: "length xs = 1 \<longrightarrow> percentile xs q = Some (xs ! 0)"
    by (simp add: percentile_def)
  from a b c d e f g show ?thesis by blast
qed

text \<open>
  The theorem at the list 10, 20, 30, 40 and the percentile 95 (index 2.85), at an integral
  index, and at a list of one element.
\<close>

theorem percentile_interpolates_witness:
  "sorted [10, 20, 30, 40 :: real]
   \<and> percentile [10, 20, 30, 40] 95 = Some (77 / 2)
   \<and> percentile [10, 20, 30, 40] 0 = Some 10
   \<and> percentile [10, 20, 30, 40] 100 = Some 40
   \<and> 50 / 100 * real (length [10, 20, 30 :: real] - 1) = real 1
   \<and> percentile [10, 20, 30] 50 = Some 20
   \<and> length [7 :: real] = 1
   \<and> percentile [7] 99 = Some 7"
  using percentile_interpolates [of "[10, 20, 30, 40]" 95 "57 / 20" 0 0]
        percentile_interpolates [of "[10, 20, 30]" 50 1 1 0]
        percentile_interpolates [of "[7]" 50 0 0 99]
  by simp

section \<open>Throughput summary\<close>

lemma bytesInWindow_sorted:
  "sorted (map timestamp xs) \<Longrightarrow>
   bytesInWindow e xs = sum_list (map bytes (filter (\<lambda>s. timestamp s < e) xs))"
proof (induction xs)
  case Nil
  then show ?case by simp
next
  case (Cons s ss)
  show ?case
  proof (cases "timestamp s < e")
    case True
    with Cons show ?thesis by simp
  next
    case False
    have "\<forall>x\<in>set ss. \<not> timestamp x < e" using Cons.prems False by auto
    hence "filter (\<lambda>s. timestamp s < e) ss = []" by (simp add: filter_empty_conv)
    with False show ?thesis by simp
  qed
qed

lemma forwardWindowBytes_Cons:
  "forwardWindowBytes w (s # ss) (Suc i) = forwardWindowBytes w ss i"
  by (simp add: forwardWindowBytes_def)

lemma windowRates_forward:
  "sorted (map timestamp ms) \<Longrightarrow>
   windowRates w ms =
     map (\<lambda>i. real (forwardWindowBytes w ms i) * 8 / (real_of_int w / 1000) / 1000000)
       [0..<length ms]"
proof (induction ms)
  case Nil
  then show ?case by simp
next
  case (Cons s ss)
  have s: "sorted (map timestamp ss)" using Cons.prems by simp
  have h: "bytesInWindow (timestamp s + w) (s # ss) = forwardWindowBytes w (s # ss) 0"
    using bytesInWindow_sorted[OF Cons.prems, of "timestamp s + w"]
    by (simp add: forwardWindowBytes_def)
  have "[0..<length (s # ss)] = 0 # map Suc [0..<length ss]"
    by (simp only: length_Cons upt_conv_Cons[OF zero_less_Suc] map_Suc_upt)
  thus ?case using Cons.IH[OF s] h
    by (simp add: forwardWindowBytes_Cons o_def del: bytesInWindow.simps)
qed

lemma windowRates_spec:
  "sorted (map timestamp (pre @ suf)) \<Longrightarrow> distinct (map timestamp (pre @ suf)) \<Longrightarrow>
   windowRates w suf =
     map (\<lambda>anchor. real (spec_windowBytes w (pre @ suf) anchor) * 8 / 1000000 / (real_of_int w / 1000)) suf"
proof (induction suf arbitrary: pre)
  case Nil
  then show ?case by simp
next
  case (Cons s ss)
  have srt: "sorted (map timestamp (s # ss))" using Cons.prems(1) by (simp add: sorted_append)
  have pre_lt: "\<forall>x\<in>set pre. timestamp x < timestamp s"
  proof
    fix x assume x: "x \<in> set pre"
    have "timestamp x \<le> timestamp s" using Cons.prems(1) x by (auto simp: sorted_append)
    moreover have "timestamp s \<notin> timestamp ` set pre" using Cons.prems(2) by auto
    hence "timestamp x \<noteq> timestamp s" using x by (metis imageI)
    ultimately show "timestamp x < timestamp s" by simp
  qed
  have suf_ge: "\<forall>x\<in>set (s # ss). timestamp s \<le> timestamp x" using srt by auto
  have f1: "filter (\<lambda>x. timestamp s \<le> timestamp x \<and> timestamp x < timestamp s + w) pre = []"
    using pre_lt by (auto simp: filter_empty_conv)
  have f2: "filter (\<lambda>x. timestamp s \<le> timestamp x \<and> timestamp x < timestamp s + w) (s # ss)
            = filter (\<lambda>x. timestamp x < timestamp s + w) (s # ss)"
    using suf_ge by (intro filter_cong) auto
  have h: "bytesInWindow (timestamp s + w) (s # ss) = spec_windowBytes w (pre @ s # ss) s"
    unfolding spec_windowBytes_def filter_append f1 f2
    using bytesInWindow_sorted[OF srt, of "timestamp s + w"] by simp
  have ih: "windowRates w ss =
     map (\<lambda>anchor. real (spec_windowBytes w ((pre @ [s]) @ ss) anchor) * 8 / 1000000 / (real_of_int w / 1000)) ss"
    using Cons.prems by (intro Cons.IH) simp_all
  show ?case using h ih by (simp del: bytesInWindow.simps)
qed

lemma sorted_measured:
  "sorted (map timestamp (filter P (sort_key timestamp xs)))"
  by (simp add: sorted_filter)

lemma distinct_measured:
  assumes "distinct (map timestamp xs)"
  shows "distinct (map timestamp (filter P (sort_key timestamp xs)))"
proof -
  have "mset (map timestamp (sort_key timestamp xs)) = mset (map timestamp xs)" by simp
  hence "distinct (map timestamp (sort_key timestamp xs))"
    using assms by (metis mset_eq_imp_distinct_iff)
  thus ?thesis by (rule distinct_map_filter)
qed

lemma calculateThroughput_unfold:
  "calculateThroughput warmupMs st =
     (let measured = filter (\<lambda>s. \<not> timestamp s < timestamp (hd (sort_key timestamp (throughputSamples st))) + warmupMs)
                       (sort_key timestamp (throughputSamples st))
      in if measured = [] then zeroThroughput
         else rateStatistics (windowRates (windowSize st) measured))"
  by (cases "throughputSamples st = []") (simp_all add: calculateThroughput_def Let_def not_less)

lemma rateStatistics_fields:
  assumes "rates \<noteq> []"
  shows "percentile (sort rates) 50 = Some (medianMbps (rateStatistics rates))"
    and "percentile (sort rates) 95 = Some (p95Mbps (rateStatistics rates))"
    and "percentile (sort rates) 99 = Some (p99Mbps (rateStatistics rates))"
    and "avgMbps (rateStatistics rates) = sum_list rates / real (length rates)"
    and "maxMbps (rateStatistics rates) = Max (set rates)"
proof -
  have d: "\<And>p. 0 \<le> p \<Longrightarrow> p \<le> 100 \<Longrightarrow> percentile (sort rates) p = Some (the (percentile (sort rates) p))"
    using percentile_defined by (metis option.collapse)
  show "percentile (sort rates) 50 = Some (medianMbps (rateStatistics rates))"
    using d[of 50] by (simp add: rateStatistics_def Let_def)
  show "percentile (sort rates) 95 = Some (p95Mbps (rateStatistics rates))"
    using d[of 95] by (simp add: rateStatistics_def Let_def)
  show "percentile (sort rates) 99 = Some (p99Mbps (rateStatistics rates))"
    using d[of 99] by (simp add: rateStatistics_def Let_def)
  have "mset (sort rates) = mset rates" by simp
  hence "sum_list (sort rates) = sum_list rates" by (metis sum_mset_sum_list)
  thus "avgMbps (rateStatistics rates) = sum_list rates / real (length rates)"
    by (simp add: rateStatistics_def Let_def)
  show "maxMbps (rateStatistics rates) = Max (set rates)"
    by (simp add: rateStatistics_def Let_def)
qed

text \<open>
  What the code computes. The samples are sorted by timestamp and those before the first
  timestamp plus \<open>warmupMs\<close> are dropped. Without samples, or without samples left, every
  metric is zero. Otherwise there is one rate per remaining sample: the bytes of the
  samples from the anchor on, in the sorted order, whose timestamp is less than 1000 ms
  after the anchor's, times 8, divided by \<open>10\<^sup>6\<close>. The result holds the percentiles 50,
  95 and 99 of the sorted rates, their average and their maximum. When no two samples share
  a timestamp this is the rule of the specification, and one remaining sample of 125000
  bytes gives 1 Mbps in every metric.
\<close>

theorem calculateThroughput_forward_windows:
  assumes "windowSize st = 1000"
    and "sorted' = sort_key timestamp (throughputSamples st)"
    and "measured = filter (\<lambda>s. \<not> timestamp s < timestamp (hd sorted') + warmupMs) sorted'"
    and "rates = map (\<lambda>i. real (forwardWindowBytes 1000 measured i) * 8 / 1000000) [0..<length measured]"
    and "result = calculateThroughput warmupMs st"
  shows "(throughputSamples st = [] \<longrightarrow> result = zeroThroughput)
       \<and> (measured = [] \<longrightarrow> result = zeroThroughput)
       \<and> (measured \<noteq> [] \<longrightarrow>
            result = rateStatistics rates
          \<and> percentile (sort rates) 50 = Some (medianMbps result)
          \<and> percentile (sort rates) 95 = Some (p95Mbps result)
          \<and> percentile (sort rates) 99 = Some (p99Mbps result)
          \<and> avgMbps result = sum_list rates / real (length rates)
          \<and> maxMbps result = Max (set rates))
       \<and> (distinct (map timestamp (throughputSamples st)) \<longrightarrow>
            result = spec_calculateThroughput warmupMs (throughputSamples st))
       \<and> (\<forall>s. measured = [s] \<and> bytes s = 125000 \<longrightarrow>
            result = \<lparr>medianMbps = 1, p95Mbps = 1, p99Mbps = 1, avgMbps = 1, maxMbps = 1\<rparr>)"
proof -
  have srt: "sorted (map timestamp measured)"
    unfolding assms(3) assms(2) by (rule sorted_measured)
  have u: "result = (if measured = [] then zeroThroughput else rateStatistics (windowRates 1000 measured))"
    unfolding assms(5) assms(3) assms(2) calculateThroughput_unfold[of warmupMs st]
    by (simp add: Let_def assms(1))
  have wr: "windowRates 1000 measured = rates"
    unfolding assms(4) windowRates_forward[OF srt] by simp
  have a: "throughputSamples st = [] \<longrightarrow> result = zeroThroughput"
    using u by (simp add: assms(3) assms(2))
  have b: "measured = [] \<longrightarrow> result = zeroThroughput" using u by simp
  have c: "measured \<noteq> [] \<longrightarrow>
            result = rateStatistics rates
          \<and> percentile (sort rates) 50 = Some (medianMbps result)
          \<and> percentile (sort rates) 95 = Some (p95Mbps result)
          \<and> percentile (sort rates) 99 = Some (p99Mbps result)
          \<and> avgMbps result = sum_list rates / real (length rates)
          \<and> maxMbps result = Max (set rates)"
  proof
    assume ne: "measured \<noteq> []"
    hence r: "result = rateStatistics rates" using u wr by simp
    have "rates \<noteq> []" using ne by (simp add: assms(4))
    from rateStatistics_fields[OF this] r
    show "result = rateStatistics rates
          \<and> percentile (sort rates) 50 = Some (medianMbps result)
          \<and> percentile (sort rates) 95 = Some (p95Mbps result)
          \<and> percentile (sort rates) 99 = Some (p99Mbps result)
          \<and> avgMbps result = sum_list rates / real (length rates)
          \<and> maxMbps result = Max (set rates)" by simp
  qed
  have d: "distinct (map timestamp (throughputSamples st)) \<longrightarrow>
            result = spec_calculateThroughput warmupMs (throughputSamples st)"
  proof
    assume dis: "distinct (map timestamp (throughputSamples st))"
    have dm: "distinct (map timestamp measured)"
      unfolding assms(3) assms(2) by (rule distinct_measured[OF dis])
    have "windowRates 1000 measured = spec_windowRates 1000 measured"
      unfolding spec_windowRates_def
      using windowRates_spec[of "[]" measured 1000] srt dm by simp
    thus "result = spec_calculateThroughput warmupMs (throughputSamples st)"
      using u by (simp add: spec_calculateThroughput_def Let_def assms(3) assms(2))
  qed
  have e: "\<forall>s. measured = [s] \<and> bytes s = 125000 \<longrightarrow>
            result = \<lparr>medianMbps = 1, p95Mbps = 1, p99Mbps = 1, avgMbps = 1, maxMbps = 1\<rparr>"
  proof (intro allI impI)
    fix s assume "measured = [s] \<and> bytes s = 125000"
    thus "result = \<lparr>medianMbps = 1, p95Mbps = 1, p99Mbps = 1, avgMbps = 1, maxMbps = 1\<rparr>"
      using u by (simp add: rateStatistics_def percentile_def)
  qed
  from a b c d e show ?thesis by blast
qed

text \<open>
  The theorem without samples, with one sample that the warm-up discard removes, and with a
  sample of 125000 bytes that survives it.
\<close>

theorem calculateThroughput_forward_windows_witness:
  "windowSize reset = 1000
   \<and> calculateThroughput 3000 reset = zeroThroughput
   \<and> calculateThroughput 3000 (reset\<lparr>throughputSamples := [\<lparr>bytes = 5, timestamp = 0\<rparr>]\<rparr>) = zeroThroughput
   \<and> distinct (map timestamp [\<lparr>bytes = 1, timestamp = 0\<rparr>, \<lparr>bytes = 125000, timestamp = 3000\<rparr>])
   \<and> calculateThroughput 3000
        (reset\<lparr>throughputSamples := [\<lparr>bytes = 1, timestamp = 0\<rparr>, \<lparr>bytes = 125000, timestamp = 3000\<rparr>]\<rparr>)
      = \<lparr>medianMbps = 1, p95Mbps = 1, p99Mbps = 1, avgMbps = 1, maxMbps = 1\<rparr>
   \<and> spec_calculateThroughput 3000 [\<lparr>bytes = 1, timestamp = 0\<rparr>, \<lparr>bytes = 125000, timestamp = 3000\<rparr>]
      = \<lparr>medianMbps = 1, p95Mbps = 1, p99Mbps = 1, avgMbps = 1, maxMbps = 1\<rparr>"
proof -
  let ?one = "reset\<lparr>throughputSamples := [\<lparr>bytes = 5, timestamp = 0\<rparr>]\<rparr>"
  let ?two = "reset\<lparr>throughputSamples :=
                [\<lparr>bytes = 1, timestamp = 0\<rparr>, \<lparr>bytes = 125000, timestamp = 3000\<rparr>]\<rparr>"
  have w: "windowSize reset = 1000" "windowSize ?one = 1000" "windowSize ?two = 1000"
    by (simp_all add: reset_def)
  have a: "calculateThroughput 3000 reset = zeroThroughput"
    using calculateThroughput_forward_windows [OF w(1) refl refl refl refl, of 3000]
    by (simp add: reset_def)
  have b: "calculateThroughput 3000 ?one = zeroThroughput"
    using calculateThroughput_forward_windows [OF w(2) refl refl refl refl, of 3000]
    by (simp add: reset_def)
  note c = calculateThroughput_forward_windows [OF w(3) refl refl refl refl, of 3000]
  have d: "distinct (map timestamp (throughputSamples ?two))" by (simp add: reset_def)
  have e: "calculateThroughput 3000 ?two = spec_calculateThroughput 3000 (throughputSamples ?two)"
    using c d by blast
  have f: "calculateThroughput 3000 ?two
           = \<lparr>medianMbps = 1, p95Mbps = 1, p99Mbps = 1, avgMbps = 1, maxMbps = 1\<rparr>"
    using c by (simp add: reset_def forwardWindowBytes_def rateStatistics_def percentile_def)
  show ?thesis using w(1) a b d e f by (simp add: reset_def)
qed

text \<open>
  Claim C1. The window of an anchor holds every sample whose timestamp lies in the 1000 ms
  that start at the anchor's timestamp, but the inner loop of the code starts at the
  anchor's own position in the sorted list and misses a sample that has the same timestamp
  and is sorted before it. With the default warm-up of 3000 ms and the samples (1 byte,
  0 ms), (100 bytes, 3000 ms), (200 bytes, 3000 ms), the window of the last sample holds
  both samples at 3000 ms (300 bytes), and the code counts 200 bytes; the averages are
  0.002 Mbps in the code and 0.0024 Mbps by the claim. With the two samples at 3000 ms
  recorded in the other order the code's average is 0.0016 Mbps, so the code's result is
  not a function of the multiset of samples.
\<close>

theorem calculateThroughput_misses_tied_samples:
  "avgMbps (calculateThroughput 3000
      (reset\<lparr>throughputSamples :=
         [\<lparr>bytes = 1, timestamp = 0\<rparr>, \<lparr>bytes = 100, timestamp = 3000\<rparr>,
          \<lparr>bytes = 200, timestamp = 3000\<rparr>]\<rparr>)) = 1 / 500
   \<and> avgMbps (spec_calculateThroughput 3000
         [\<lparr>bytes = 1, timestamp = 0\<rparr>, \<lparr>bytes = 100, timestamp = 3000\<rparr>,
          \<lparr>bytes = 200, timestamp = 3000\<rparr>]) = 3 / 1250
   \<and> mset [\<lparr>bytes = 1, timestamp = 0\<rparr>, \<lparr>bytes = 100, timestamp = 3000\<rparr>,
            \<lparr>bytes = 200, timestamp = 3000\<rparr>]
     = mset [\<lparr>bytes = 1, timestamp = 0\<rparr>, \<lparr>bytes = 200, timestamp = 3000\<rparr>,
            \<lparr>bytes = 100, timestamp = 3000\<rparr>]
   \<and> avgMbps (calculateThroughput 3000
      (reset\<lparr>throughputSamples :=
         [\<lparr>bytes = 1, timestamp = 0\<rparr>, \<lparr>bytes = 200, timestamp = 3000\<rparr>,
          \<lparr>bytes = 100, timestamp = 3000\<rparr>]\<rparr>)) = 1 / 625
   \<and> calculateThroughput 3000
      (reset\<lparr>throughputSamples :=
         [\<lparr>bytes = 1, timestamp = 0\<rparr>, \<lparr>bytes = 100, timestamp = 3000\<rparr>,
          \<lparr>bytes = 200, timestamp = 3000\<rparr>]\<rparr>)
     \<noteq> spec_calculateThroughput 3000
         [\<lparr>bytes = 1, timestamp = 0\<rparr>, \<lparr>bytes = 100, timestamp = 3000\<rparr>,
          \<lparr>bytes = 200, timestamp = 3000\<rparr>]"
  by (simp add: calculateThroughput_def spec_calculateThroughput_def reset_def rateStatistics_def
      spec_windowRates_def spec_windowBytes_def Let_def)

section \<open>Jitter\<close>

text \<open>
  When every round-trip time is positive, the estimate and the recorded differences follow
  the recurrence of the specification.
\<close>

lemma addRttSamples_positive:
  assumes "\<forall>r\<in>set (map fst rs). 0 < r" and "0 < lastRtt st"
  shows "jitterEstimate (addRttSamples rs st) = spec_jitter (jitterEstimate st) (lastRtt st) (map fst rs)
       \<and> jitterSamples (addRttSamples rs st) = jitterSamples st @ spec_differences (lastRtt st) (map fst rs)"
  using assms
proof (induction rs arbitrary: st)
  case Nil
  then show ?case by simp
next
  case (Cons x rs)
  obtain r t where x: "x = (r, t)" by (cases x)
  let ?st = "addRttSample r t st"
  have r: "0 < r" using Cons.prems(1) x by simp
  have l: "lastRtt ?st = r" by (simp add: addRttSample_def Let_def)
  have j: "jitterEstimate ?st = jitterEstimate st + (\<bar>r - lastRtt st\<bar> - jitterEstimate st) / 16"
    using Cons.prems(2) by (simp add: addRttSample_def Let_def)
  have d: "jitterSamples ?st = jitterSamples st @ [\<bar>r - lastRtt st\<bar>]"
    using Cons.prems(2) by (simp add: addRttSample_def Let_def)
  have "\<forall>r\<in>set (map fst rs). 0 < r" using Cons.prems(1) by simp
  from Cons.IH[OF this, of ?st] r l j d x show ?case by simp
qed

lemma jitter_recurrence_positive:
  assumes "\<forall>r\<in>set (map fst rs). 0 < r"
  shows "jitterEstimate (addRttSamples rs reset) = spec_jitterEstimate (map fst rs)
       \<and> jitterSamples (addRttSamples rs reset) = spec_jitterSamples (map fst rs)
       \<and> meanMs (calculateJitter (addRttSamples rs reset)) = spec_jitterEstimate (map fst rs)"
proof (cases rs)
  case Nil
  then show ?thesis
    by (simp add: reset_def spec_jitterEstimate_def spec_jitterSamples_def calculateJitter_def)
next
  case (Cons x rs')
  obtain r t where x: "x = (r, t)" by (cases x)
  let ?st = "addRttSample r t reset"
  have r: "0 < r" using assms Cons x by simp
  have f: "lastRtt ?st = r" "jitterEstimate ?st = 0" "jitterSamples ?st = []"
    by (simp_all add: addRttSample_def reset_def Let_def)
  have "\<forall>r\<in>set (map fst rs'). 0 < r" using assms Cons by simp
  from addRttSamples_positive[OF this, of ?st] r f
  have a: "jitterEstimate (addRttSamples rs reset) = spec_jitterEstimate (map fst rs)"
    and b: "jitterSamples (addRttSamples rs reset) = spec_jitterSamples (map fst rs)"
    using Cons x by (simp_all add: spec_jitterEstimate_def spec_jitterSamples_def)
  have "spec_differences r (map fst rs') = [] \<Longrightarrow> spec_jitter 0 r (map fst rs') = 0"
    by (cases rs') simp_all
  hence "meanMs (calculateJitter (addRttSamples rs reset)) = spec_jitterEstimate (map fst rs)"
    using a b Cons x
    by (simp add: calculateJitter_def Let_def spec_jitterEstimate_def spec_jitterSamples_def)
  with a b show ?thesis by simp
qed

text \<open>
  Claim C3. \<open>addRttSample\<close> takes \<open>lastRtt > 0\<close> for "there is a previous sample", so
  a round-trip time of 0 ms is taken for no sample at all. After the round-trip times 0 and
  100 the code has recorded no difference and its estimate is 0, where the recurrence of
  the claim gives \<open>D = 100\<close> and the estimate 6.25. On the two sequences that the claim
  names, 100, 200 and 100, 100, 100, the code gives 6.25 and 0.
\<close>

theorem addRttSample_zero_rtt_breaks_recurrence:
  "jitterEstimate (addRttSamples [(0, 1000), (100, 1250)] reset) = 0
   \<and> jitterSamples (addRttSamples [(0, 1000), (100, 1250)] reset) = []
   \<and> calculateJitter (addRttSamples [(0, 1000), (100, 1250)] reset) = \<lparr>meanMs = 0, jitter_p95Ms = 0\<rparr>
   \<and> spec_jitterEstimate [0, 100] = 25 / 4
   \<and> spec_jitterSamples [0, 100] = [100]
   \<and> jitterEstimate (addRttSamples [(100, 1000), (200, 1250)] reset) = 25 / 4
   \<and> jitterEstimate (addRttSamples [(100, 1000), (100, 1250), (100, 1500)] reset) = 0"
  by (simp add: addRttSample_def reset_def Let_def calculateJitter_def
      spec_jitterEstimate_def spec_jitterSamples_def)

section \<open>Stability score\<close>

lemma windowRates_nonneg: "0 \<le> w \<Longrightarrow> \<forall>r\<in>set (windowRates w ms). 0 \<le> r"
  by (induction ms) (simp_all del: bytesInWindow.simps)

lemma avgMbps_nonneg:
  assumes "0 \<le> windowSize st"
  shows "0 \<le> avgMbps (calculateThroughput warmupMs st)"
proof -
  have "\<And>rates. \<forall>r\<in>set rates. (0::real) \<le> r \<Longrightarrow> 0 \<le> avgMbps (rateStatistics rates)"
  proof -
    fix rates :: "real list" assume "\<forall>r\<in>set rates. 0 \<le> r"
    hence "0 \<le> sum_list (sort rates)" by (intro sum_list_nonneg) simp
    thus "0 \<le> avgMbps (rateStatistics rates)" by (simp add: rateStatistics_def Let_def)
  qed
  from this[OF windowRates_nonneg[OF assms]] show ?thesis
    by (simp add: calculateThroughput_unfold Let_def zeroThroughput_def)
qed

lemma Math_round_near: "\<bar>real_of_int (Math_round x) - x\<bar> \<le> 1 / 2"
  unfolding Math_round_def by linarith

text \<open>
  Claim C5. With the throughput summary \<open>t\<close> and the latency summary \<open>l\<close> of the
  state, \<open>cv = |median - avg| / avg\<close> (0 when the average is 0) and the latency penalty
  \<open>min (p95 / 10) 50\<close>, the stability score is \<open>100 - cv * 100 - penalty\<close> clamped to
  the range from 0 to 100 and rounded to the nearest integer; it lies between 0 and 100,
  and it is 100 when the average throughput and the 95th percentile of the round-trip
  times are both 0.
\<close>

theorem calculateStability_formula:
  assumes "windowSize st = 1000"
    and "t = calculateThroughput warmupMs st"
    and "l = calculateLatency st"
    and "cv = (if avgMbps t = 0 then 0 else \<bar>medianMbps t - avgMbps t\<bar> / avgMbps t)"
    and "latencyPenalty = min (p95Ms l / 10) 50"
    and "clamped = max 0 (min 100 (100 - cv * 100 - latencyPenalty))"
  shows "calculateStability warmupMs st = Math_round clamped
       \<and> \<bar>real_of_int (calculateStability warmupMs st) - clamped\<bar> \<le> 1 / 2
       \<and> 0 \<le> calculateStability warmupMs st \<and> calculateStability warmupMs st \<le> 100
       \<and> (avgMbps t = 0 \<and> p95Ms l = 0 \<longrightarrow> calculateStability warmupMs st = 100)"
proof -
  have nn: "0 \<le> avgMbps t" unfolding assms(2) by (rule avgMbps_nonneg) (simp add: assms(1))
  hence c: "cv = (if avgMbps t > 0 then \<bar>medianMbps t - avgMbps t\<bar> / avgMbps t else 0)"
    unfolding assms(4) by auto
  have a: "calculateStability warmupMs st = Math_round clamped"
    unfolding calculateStability_def assms(6) c assms(5) assms(2) assms(3) by (simp add: Let_def)
  have r: "0 \<le> clamped" "clamped \<le> 100" unfolding assms(6) by simp_all
  have b: "0 \<le> Math_round clamped" "Math_round clamped \<le> 100"
    unfolding Math_round_def using r by linarith+
  have d: "avgMbps t = 0 \<and> p95Ms l = 0 \<longrightarrow> Math_round clamped = 100"
    unfolding assms(6) assms(5) assms(4) by (simp add: Math_round_def)
  from a b d Math_round_near[of clamped] show ?thesis by simp
qed

text \<open>
  The theorem at the state without samples, and at a state with the window rates 1, 2 and
  6 Mbps (median 2, average 3) and one round-trip time of 100 ms: 100 - 33.3 - 10 rounds
  to 57.
\<close>

theorem calculateStability_formula_witness:
  "windowSize reset = 1000
   \<and> avgMbps (calculateThroughput 3000 reset) = 0 \<and> p95Ms (calculateLatency reset) = 0
   \<and> calculateStability 3000 reset = 100
   \<and> calculateStability 0
        (reset\<lparr>throughputSamples :=
                 [\<lparr>bytes = 125000, timestamp = 0\<rparr>, \<lparr>bytes = 250000, timestamp = 2000\<rparr>,
                  \<lparr>bytes = 750000, timestamp = 4000\<rparr>],
               rttSamples := [\<lparr>rtt = 100, rtt_timestamp = 50\<rparr>]\<rparr>) = 57"
proof -
  let ?st = "reset\<lparr>throughputSamples :=
                 [\<lparr>bytes = 125000, timestamp = 0\<rparr>, \<lparr>bytes = 250000, timestamp = 2000\<rparr>,
                  \<lparr>bytes = 750000, timestamp = 4000\<rparr>],
               rttSamples := [\<lparr>rtt = 100, rtt_timestamp = 50\<rparr>]\<rparr>"
  have w: "windowSize reset = 1000" "windowSize ?st = 1000" by (simp_all add: reset_def)
  have t: "calculateThroughput 0 ?st
             = \<lparr>medianMbps = 2, p95Mbps = 28 / 5, p99Mbps = 148 / 25, avgMbps = 3, maxMbps = 6\<rparr>"
    by (simp add: calculateThroughput_def rateStatistics_def percentile_def js_nth_def reset_def Let_def)
  have l: "p95Ms (calculateLatency ?st) = 100"
    by (simp add: calculateLatency_def percentile_def reset_def Let_def)
  have a: "calculateStability 3000 reset = 100"
    using calculateStability_formula [OF w(1) refl refl refl refl refl, of 3000]
    by (simp add: reset_def calculateThroughput_def calculateLatency_def zeroThroughput_def zeroLatency_def)
  have b: "calculateStability 0 ?st = 57"
    using calculateStability_formula [OF w(2) refl refl refl refl refl, of 0]
    unfolding t l by (simp add: Math_round_def)
  have z: "avgMbps (calculateThroughput 3000 reset) = 0" "p95Ms (calculateLatency reset) = 0"
    by (simp_all add: reset_def calculateThroughput_def calculateLatency_def zeroThroughput_def zeroLatency_def)
  show ?thesis using w(1) z a b by simp
qed

section \<open>Echo probes: pending set, round-trip samples and lost echoes\<close>


lemma has_iff: "has m k \<longleftrightarrow> k \<in> fst ` set m"
  by (simp add: has_def map_of_eq_None_iff)

lemma has_delete: "has (AList.delete k m) q \<longleftrightarrow> q \<noteq> k \<and> has m q"
  by (auto simp: has_def delete_conv')

lemma has_update: "has (AList.update k v m) q \<longleftrightarrow> q = k \<or> has m q"
  by (auto simp: has_def update_conv')

lemma length_delete_distinct:
  "distinct (map fst m) \<Longrightarrow> k \<in> fst ` set m \<Longrightarrow> Suc (length (AList.delete k m)) = length m"
proof (induction m)
  case Nil
  then show ?case by simp
next
  case (Cons a m)
  show ?case
  proof (cases "fst a = k")
    case True
    hence "k \<notin> fst ` set m" using Cons.prems(1) by auto
    with True show ?thesis by (cases a) simp
  next
    case False
    hence "k \<in> fst ` set m" using Cons.prems(2) by auto
    with False Cons show ?thesis by (cases a) simp
  qed
qed

lemma length_update_fresh: "k \<notin> fst ` set m \<Longrightarrow> length (AList.update k v m) = Suc (length m)"
  by (induction m) auto

text \<open>Effect of each callback on the observed fields.\<close>

lemma sendEcho_fields:
  "echoSeq (sendEcho now orch) = Suc (echoSeq orch)"
  "pendingEchoes (sendEcho now orch)
     = AList.update (echoSeq orch) \<lparr>pe_timestamp = now, timeoutId = echoSeq orch\<rparr> (pendingEchoes orch)"
  "metrics (sendEcho now orch) = metrics orch"
  "timers (sendEcho now orch) = insert (echoSeq orch) (timers orch)"
  "emitted (sendEcho now orch) = emitted orch"
  by (simp_all add: sendEcho_def Let_def)

lemma echoTimeout_pending:
  assumes "has (pendingEchoes orch) q"
  shows "echoSeq (echoTimeout q orch) = echoSeq orch"
    and "pendingEchoes (echoTimeout q orch) = AList.delete q (pendingEchoes orch)"
    and "metrics (echoTimeout q orch) = addLostEcho (metrics orch)"
    and "timers (echoTimeout q orch) = timers orch"
    and "emitted (echoTimeout q orch) = emitted orch @ [MetricsUpdate]"
  using assms by (simp_all add: echoTimeout_def Let_def emit_def)

lemma echoTimeout_absent: "\<not> has (pendingEchoes orch) q \<Longrightarrow> echoTimeout q orch = orch"
  by (simp add: echoTimeout_def)

lemma handleEchoResponse_pending:
  assumes "map_of (pendingEchoes orch) q = Some pe"
  shows "echoSeq (handleEchoResponse (Some (q, sendTime)) receiveTime orch) = echoSeq orch"
    and "pendingEchoes (handleEchoResponse (Some (q, sendTime)) receiveTime orch)
           = AList.delete q (pendingEchoes orch)"
    and "metrics (handleEchoResponse (Some (q, sendTime)) receiveTime orch)
           = addRttSample (real_of_int (receiveTime - sendTime)) receiveTime (metrics orch)"
    and "timers (handleEchoResponse (Some (q, sendTime)) receiveTime orch) = timers orch - {timeoutId pe}"
    and "emitted (handleEchoResponse (Some (q, sendTime)) receiveTime orch) = emitted orch @ [MetricsUpdate]"
  using assms by (simp_all add: handleEchoResponse_def Let_def emit_def)

lemma handleEchoResponse_absent:
  "\<not> has (pendingEchoes orch) q \<Longrightarrow> handleEchoResponse (Some (q, sendTime)) receiveTime orch = orch"
  by (simp add: handleEchoResponse_def has_def)

lemma handleEchoResponse_garbage: "handleEchoResponse None receiveTime orch = orch"
  by (simp add: handleEchoResponse_def)

lemma cleanup_fields:
  "echoSeq (cleanup orch) = echoSeq orch" "pendingEchoes (cleanup orch) = []"
  "metrics (cleanup orch) = metrics orch" "emitted (cleanup orch) = emitted orch"
  by (simp_all add: cleanup_def)

lemma addRttSample_fields:
  "length (rttSamples (addRttSample r t m)) = Suc (length (rttSamples m))"
  "lostEchoes (addRttSample r t m) = lostEchoes m"
  "sentEchoes (addRttSample r t m) = Suc (sentEchoes m)"
  by (simp_all add: addRttSample_def Let_def)

lemma addLostEcho_fields:
  "rttSamples (addLostEcho m) = rttSamples m"
  "lostEchoes (addLostEcho m) = Suc (lostEchoes m)"
  "sentEchoes (addLostEcho m) = Suc (sentEchoes m)"
  by (simp_all add: addLostEcho_def)

text \<open>A classification of what one callback does.\<close>

lemma deliver_cases:
  obtains
    (sent) now where "c = EchoTick now" "deliver c orch = sendEcho now orch"
  | (matched) q sendTime receiveTime pe where "c = Message (Some (q, sendTime)) receiveTime"
      "map_of (pendingEchoes orch) q = Some pe"
  | (lost) q where "c = TimeoutFires q" "q \<in> timers orch" "has (pendingEchoes orch) q"
  | (timer_only) q where "c = TimeoutFires q" "q \<in> timers orch" "\<not> has (pendingEchoes orch) q"
      "deliver c orch = orch\<lparr>timers := timers orch - {q}\<rparr>"
  | (cleared) "c = Cleanup"
  | (nothing) "deliver c orch = orch" "c \<noteq> Cleanup"
proof (cases c)
  case (EchoTick now)
  show ?thesis
  proof (cases "echoTimer orch \<and> ws orch = Some True")
    case True
    hence "deliver c orch = sendEcho now orch" using EchoTick by simp
    from sent[OF EchoTick this] show ?thesis .
  next
    case False
    hence d: "deliver c orch = orch" using EchoTick by auto
    have n: "c \<noteq> Cleanup" using EchoTick by simp
    show ?thesis using d n by (rule nothing)
  qed
next
  case (TimeoutFires q)
  have n: "c \<noteq> Cleanup" using TimeoutFires by simp
  show ?thesis
  proof (cases "q \<in> timers orch")
    case True
    show ?thesis
    proof (cases "has (pendingEchoes orch) q")
      case h: True
      from lost[OF TimeoutFires True h] show ?thesis .
    next
      case False
      hence "deliver c orch = orch\<lparr>timers := timers orch - {q}\<rparr>"
        using TimeoutFires True by (simp add: echoTimeout_def)
      from timer_only[OF TimeoutFires True False this] show ?thesis .
    qed
  next
    case False
    hence d: "deliver c orch = orch" using TimeoutFires by simp
    show ?thesis using d n by (rule nothing)
  qed
next
  case (Message d receiveTime)
  have n: "c \<noteq> Cleanup" using Message by simp
  show ?thesis
  proof (cases d)
    case None
    hence e: "deliver c orch = orch" using Message by (simp add: handleEchoResponse_garbage)
    show ?thesis using e n by (rule nothing)
  next
    case (Some a)
    obtain q sendTime where a: "a = (q, sendTime)" by (cases a)
    have c: "c = Message (Some (q, sendTime)) receiveTime" using Message Some a by simp
    show ?thesis
    proof (cases "map_of (pendingEchoes orch) q")
      case None
      hence e: "deliver c orch = orch" using c by (simp add: handleEchoResponse_absent has_def)
      show ?thesis using e n by (rule nothing)
    next
      case (Some pe)
      from matched[OF c Some] show ?thesis .
    qed
  qed
next
  case Cleanup
  from cleared[OF Cleanup] show ?thesis .
qed


lemma echo_inv_deliver:
  assumes "echo_inv orch"
  shows "echo_inv (deliver c orch)"
proof (cases c orch rule: deliver_cases)
  case (sent now)
  show ?thesis using assms unfolding sent(2) echo_inv_def sendEcho_fields
    by (auto simp: distinct_update has_update less_Suc_eq)
next
  case (matched q sendTime receiveTime pe)
  have "deliver c orch = handleEchoResponse (Some (q, sendTime)) receiveTime orch"
    using matched(1) by simp
  thus ?thesis using assms
    unfolding echo_inv_def by (auto simp: handleEchoResponse_pending[OF matched(2)] distinct_delete has_delete)
next
  case (lost q)
  let ?o = "orch\<lparr>timers := timers orch - {q}\<rparr>"
  have h: "has (pendingEchoes ?o) q" using lost(3) by simp
  have "deliver c orch = echoTimeout q ?o" using lost by simp
  thus ?thesis using assms
    unfolding echo_inv_def by (auto simp: echoTimeout_pending[OF h] distinct_delete has_delete)
next
  case (timer_only q)
  then show ?thesis using assms by (simp add: echo_inv_def)
next
  case cleared
  then show ?thesis by (simp add: echo_inv_def cleanup_fields has_def)
next
  case nothing
  then show ?thesis using assms by simp
qed

lemma echo_inv_deliver_all: "echo_inv orch \<Longrightarrow> echo_inv (deliver_all cs orch)"
  by (induction cs arbitrary: orch) (simp_all add: echo_inv_deliver)

lemma echo_inv_ready: "echo_inv echo_ready"
  by (simp add: echo_inv_def echo_ready_def new_orchestrator_def has_def)

lemma outcome_step:
  assumes "echo_inv orch"
  shows "rttProduced q [c] orch + lostProduced q [c] orch
           + (if has (pendingEchoes (deliver c orch)) q \<or> echoSeq (deliver c orch) \<le> q then 1 else 0)
         \<le> (if has (pendingEchoes orch) q \<or> echoSeq orch \<le> q then 1 else (0::nat))"
proof (cases c orch rule: deliver_cases)
  case (sent now)
  show ?thesis unfolding sent(2) using sent(1)
    by (auto simp: sendEcho_fields has_update)
next
  case (matched k sendTime receiveTime pe)
  have d: "deliver c orch = handleEchoResponse (Some (k, sendTime)) receiveTime orch"
    using matched(1) by simp
  have f: "length (rttSamples (metrics (deliver c orch))) = Suc (length (rttSamples (metrics orch)))"
    "has (pendingEchoes (deliver c orch)) q \<longleftrightarrow> q \<noteq> k \<and> has (pendingEchoes orch) q"
    "echoSeq (deliver c orch) = echoSeq orch"
    unfolding d by (simp_all add: handleEchoResponse_pending[OF matched(2)] has_delete addRttSample_fields)
  have hk: "has (pendingEchoes orch) k" using matched(2) by (simp add: has_def)
  hence "k < echoSeq orch" using assms by (simp add: echo_inv_def)
  thus ?thesis using hk f matched(1) by (auto simp del: deliver.simps)
next
  case (lost k)
  let ?o = "orch\<lparr>timers := timers orch - {k}\<rparr>"
  have h: "has (pendingEchoes ?o) k" using lost(3) by simp
  have d: "deliver c orch = echoTimeout k ?o" using lost by simp
  have f: "lostEchoes (metrics (deliver c orch)) = Suc (lostEchoes (metrics orch))"
    "has (pendingEchoes (deliver c orch)) q \<longleftrightarrow> q \<noteq> k \<and> has (pendingEchoes orch) q"
    "echoSeq (deliver c orch) = echoSeq orch"
    unfolding d by (simp_all add: echoTimeout_pending[OF h] has_delete addLostEcho_fields)
  have "k < echoSeq orch" using assms lost(3) by (simp add: echo_inv_def)
  thus ?thesis using lost(3) f lost(1) by (auto simp del: deliver.simps)
next
  case (timer_only k)
  have f: "lostEchoes (metrics (deliver c orch)) = lostEchoes (metrics orch)"
    "has (pendingEchoes (deliver c orch)) q \<longleftrightarrow> has (pendingEchoes orch) q"
    "echoSeq (deliver c orch) = echoSeq orch"
    unfolding timer_only(4) by simp_all
  show ?thesis using f timer_only(1) by (auto simp del: deliver.simps)
next
  case cleared
  then show ?thesis by (simp add: cleanup_fields has_def)
next
  case n: nothing
  show ?thesis using n(1)
    by (cases c) (auto split: option.splits simp del: deliver.simps)
qed

lemma outcome_bound:
  assumes "echo_inv orch"
  shows "rttProduced q cs orch + lostProduced q cs orch
         \<le> (if has (pendingEchoes orch) q \<or> echoSeq orch \<le> q then 1 else 0)"
  using assms
proof (induction cs arbitrary: orch)
  case Nil
  then show ?case by simp
next
  case (Cons c cs)
  have i: "echo_inv (deliver c orch)" using Cons.prems by (rule echo_inv_deliver)
  have "rttProduced q (c # cs) orch + lostProduced q (c # cs) orch
        = rttProduced q [c] orch + lostProduced q [c] orch
          + (rttProduced q cs (deliver c orch) + lostProduced q cs (deliver c orch))"
    by simp
  also have "\<dots> \<le> rttProduced q [c] orch + lostProduced q [c] orch
          + (if has (pendingEchoes (deliver c orch)) q \<or> echoSeq (deliver c orch) \<le> q then 1 else 0)"
    using Cons.IH[OF i] by (rule add_left_mono)
  also have "\<dots> \<le> (if has (pendingEchoes orch) q \<or> echoSeq orch \<le> q then 1 else 0)"
    using outcome_step[OF Cons.prems] .
  finally show ?case .
qed

lemma deliver_counts:
  assumes "echo_inv orch"
    and "sentEchoes (metrics orch) = length (rttSamples (metrics orch)) + lostEchoes (metrics orch)"
  shows "sentEchoes (metrics (deliver c orch))
           = length (rttSamples (metrics (deliver c orch))) + lostEchoes (metrics (deliver c orch))"
    and "sentEchoes (metrics orch) + length (pendingEchoes orch) \<le> echoSeq orch \<Longrightarrow>
         sentEchoes (metrics (deliver c orch)) + length (pendingEchoes (deliver c orch))
           \<le> echoSeq (deliver c orch)"
    and "c \<noteq> Cleanup \<Longrightarrow>
         sentEchoes (metrics orch) + length (pendingEchoes orch) = echoSeq orch \<Longrightarrow>
         sentEchoes (metrics (deliver c orch)) + length (pendingEchoes (deliver c orch))
           = echoSeq (deliver c orch)"
    and "(\<forall>q. c \<noteq> TimeoutFires q) \<Longrightarrow>
         lostEchoes (metrics (deliver c orch)) = lostEchoes (metrics orch)"
proof -
  have d: "distinct (map fst (pendingEchoes orch))" using assms(1) by (simp add: echo_inv_def)
  have fresh: "echoSeq orch \<notin> fst ` set (pendingEchoes orch)"
    using assms(1) by (auto simp: echo_inv_def has_iff)
  have "sentEchoes (metrics (deliver c orch))
           = length (rttSamples (metrics (deliver c orch))) + lostEchoes (metrics (deliver c orch))
      \<and> (sentEchoes (metrics orch) + length (pendingEchoes orch) \<le> echoSeq orch \<longrightarrow>
         sentEchoes (metrics (deliver c orch)) + length (pendingEchoes (deliver c orch))
           \<le> echoSeq (deliver c orch))
      \<and> (c \<noteq> Cleanup \<longrightarrow>
         sentEchoes (metrics orch) + length (pendingEchoes orch) = echoSeq orch \<longrightarrow>
         sentEchoes (metrics (deliver c orch)) + length (pendingEchoes (deliver c orch))
           = echoSeq (deliver c orch))
      \<and> ((\<forall>q. c \<noteq> TimeoutFires q) \<longrightarrow>
         lostEchoes (metrics (deliver c orch)) = lostEchoes (metrics orch))"
  proof (cases c orch rule: deliver_cases)
    case (sent now)
    show ?thesis unfolding sent(2) using assms(2)
      by (simp add: sendEcho_fields length_update_fresh[OF fresh])
  next
    case (matched k sendTime receiveTime pe)
    have e: "deliver c orch = handleEchoResponse (Some (k, sendTime)) receiveTime orch"
      using matched(1) by simp
    have "k \<in> fst ` set (pendingEchoes orch)" using matched(2) by (metis has_def has_iff option.distinct(1))
    from length_delete_distinct[OF d this] show ?thesis unfolding e using assms(2)
      by (simp add: handleEchoResponse_pending[OF matched(2)] addRttSample_fields)
  next
    case (lost k)
    let ?o = "orch\<lparr>timers := timers orch - {k}\<rparr>"
    have h: "has (pendingEchoes ?o) k" using lost(3) by simp
    have e: "deliver c orch = echoTimeout k ?o" using lost by simp
    have "k \<in> fst ` set (pendingEchoes orch)" using lost(3) by (simp add: has_iff)
    from length_delete_distinct[OF d this] show ?thesis unfolding e using assms(2) lost(1)
      by (simp add: echoTimeout_pending[OF h] addLostEcho_fields)
  next
    case (timer_only k)
    show ?thesis unfolding timer_only(4) using assms(2) by simp
  next
    case cleared
    show ?thesis unfolding cleared using assms(2) by (simp add: cleanup_fields)
  next
    case n: nothing
    show ?thesis unfolding n(1) using assms(2) by simp
  qed
  thus "sentEchoes (metrics (deliver c orch))
           = length (rttSamples (metrics (deliver c orch))) + lostEchoes (metrics (deliver c orch))"
    and "sentEchoes (metrics orch) + length (pendingEchoes orch) \<le> echoSeq orch \<Longrightarrow>
         sentEchoes (metrics (deliver c orch)) + length (pendingEchoes (deliver c orch))
           \<le> echoSeq (deliver c orch)"
    and "c \<noteq> Cleanup \<Longrightarrow>
         sentEchoes (metrics orch) + length (pendingEchoes orch) = echoSeq orch \<Longrightarrow>
         sentEchoes (metrics (deliver c orch)) + length (pendingEchoes (deliver c orch))
           = echoSeq (deliver c orch)"
    and "(\<forall>q. c \<noteq> TimeoutFires q) \<Longrightarrow>
         lostEchoes (metrics (deliver c orch)) = lostEchoes (metrics orch)"
    by blast+
qed

lemma deliver_all_counts:
  assumes "echo_inv orch"
    and "sentEchoes (metrics orch) = length (rttSamples (metrics orch)) + lostEchoes (metrics orch)"
  shows "sentEchoes (metrics (deliver_all cs orch))
           = length (rttSamples (metrics (deliver_all cs orch))) + lostEchoes (metrics (deliver_all cs orch))
       \<and> (sentEchoes (metrics orch) + length (pendingEchoes orch) \<le> echoSeq orch \<longrightarrow>
           sentEchoes (metrics (deliver_all cs orch)) + length (pendingEchoes (deliver_all cs orch))
             \<le> echoSeq (deliver_all cs orch))
       \<and> (Cleanup \<notin> set cs \<longrightarrow>
           sentEchoes (metrics orch) + length (pendingEchoes orch) = echoSeq orch \<longrightarrow>
           sentEchoes (metrics (deliver_all cs orch)) + length (pendingEchoes (deliver_all cs orch))
             = echoSeq (deliver_all cs orch))
       \<and> ((\<forall>q. TimeoutFires q \<notin> set cs) \<longrightarrow>
           lostEchoes (metrics (deliver_all cs orch)) = lostEchoes (metrics orch))"
  using assms
proof (induction cs arbitrary: orch)
  case Nil
  then show ?case by simp
next
  case (Cons c cs)
  note s = deliver_counts[OF Cons.prems, of c]
  note ih = Cons.IH[OF echo_inv_deliver[OF Cons.prems(1)] s(1)]
  show ?case using ih s(2) s(3) s(4) by auto
qed

lemmas echo_eval = echo_ready_def new_orchestrator_def reset_def sendEcho_def echoTimeout_def
  handleEchoResponse_def cleanup_def emit_def has_def addRttSample_def addLostEcho_def Let_def
  calculatePacketLoss_def

text \<open>
  Claim C4, as the code has it. The packet loss is \<open>lostEchoes / sentEchoes * 100\<close>, and 0
  when \<open>sentEchoes\<close> is 0. After any run of callbacks, \<open>sentEchoes\<close> is the number of
  probes that were matched by a response plus the number that timed out: it is incremented
  when a probe is resolved, not when it is sent. So \<open>sentEchoes\<close> plus the number of
  pending probes is at most the number of probes sent (\<open>echoSeq\<close>), and equal to it as
  long as \<open>cleanup\<close> has not dropped pending probes. \<open>lostEchoes\<close> moves only when a
  timeout fires. With \<open>sentEchoes = 10\<close> and \<open>lostEchoes = 2\<close> the loss is 20.
\<close>

theorem packet_loss_over_resolved_probes:
  assumes "orch = deliver_all cs echo_ready" and "m = metrics orch"
  shows "calculatePacketLoss m
           = (if sentEchoes m = 0 then 0 else real (lostEchoes m) / real (sentEchoes m) * 100)
       \<and> sentEchoes m = length (rttSamples m) + lostEchoes m
       \<and> sentEchoes m + length (pendingEchoes orch) \<le> echoSeq orch
       \<and> (Cleanup \<notin> set cs \<longrightarrow> sentEchoes m + length (pendingEchoes orch) = echoSeq orch)
       \<and> ((\<forall>q. TimeoutFires q \<notin> set cs) \<longrightarrow> lostEchoes m = 0)
       \<and> (sentEchoes m = 10 \<and> lostEchoes m = 2 \<longrightarrow> calculatePacketLoss m = 20)"
proof -
  have i: "sentEchoes (metrics echo_ready)
           = length (rttSamples (metrics echo_ready)) + lostEchoes (metrics echo_ready)"
    and z: "sentEchoes (metrics echo_ready) + length (pendingEchoes echo_ready) = echoSeq echo_ready"
    and l: "lostEchoes (metrics echo_ready) = 0"
    by (simp_all add: echo_ready_def new_orchestrator_def reset_def)
  have z': "sentEchoes (metrics echo_ready) + length (pendingEchoes echo_ready) \<le> echoSeq echo_ready"
    using z by simp
  note k = deliver_all_counts[OF echo_inv_ready i, of cs]
  have k1: "sentEchoes m = length (rttSamples m) + lostEchoes m"
    unfolding assms using k by blast
  have k2: "sentEchoes m + length (pendingEchoes orch) \<le> echoSeq orch"
    unfolding assms using k z' by blast
  have k3: "Cleanup \<notin> set cs \<longrightarrow> sentEchoes m + length (pendingEchoes orch) = echoSeq orch"
    unfolding assms using k z by blast
  have k4: "(\<forall>q. TimeoutFires q \<notin> set cs) \<longrightarrow> lostEchoes m = 0"
    unfolding assms using k l by metis
  have "sentEchoes m = length (rttSamples m) + lostEchoes m
       \<and> sentEchoes m + length (pendingEchoes orch) \<le> echoSeq orch
       \<and> (Cleanup \<notin> set cs \<longrightarrow> sentEchoes m + length (pendingEchoes orch) = echoSeq orch)
       \<and> ((\<forall>q. TimeoutFires q \<notin> set cs) \<longrightarrow> lostEchoes m = 0)"
    using k1 k2 k3 k4 by blast
  moreover have "calculatePacketLoss m
           = (if sentEchoes m = 0 then 0 else real (lostEchoes m) / real (sentEchoes m) * 100)"
    by (simp add: calculatePacketLoss_def)
  moreover have "sentEchoes m = 10 \<and> lostEchoes m = 2 \<longrightarrow> calculatePacketLoss m = 20"
    by (simp add: calculatePacketLoss_def)
  ultimately show ?thesis by blast
qed

text \<open>
  The theorem after three probes: the first is matched, the second times out and the third
  is still pending, which gives a loss of 50 percent over the two resolved probes.
\<close>

theorem packet_loss_over_resolved_probes_witness:
  "Cleanup \<notin> set [EchoTick 0, Message (Some (0, 0)) 40, EchoTick 250, EchoTick 500, TimeoutFires 1]
   \<and> sentEchoes (metrics (deliver_all
         [EchoTick 0, Message (Some (0, 0)) 40, EchoTick 250, EchoTick 500, TimeoutFires 1] echo_ready)) = 2
   \<and> length (pendingEchoes (deliver_all
         [EchoTick 0, Message (Some (0, 0)) 40, EchoTick 250, EchoTick 500, TimeoutFires 1] echo_ready)) = 1
   \<and> echoSeq (deliver_all
         [EchoTick 0, Message (Some (0, 0)) 40, EchoTick 250, EchoTick 500, TimeoutFires 1] echo_ready) = 3
   \<and> calculatePacketLoss (metrics (deliver_all
         [EchoTick 0, Message (Some (0, 0)) 40, EchoTick 250, EchoTick 500, TimeoutFires 1] echo_ready)) = 50
   \<and> (\<forall>q. TimeoutFires q \<notin> set [EchoTick 0, Message (Some (0, 0)) 40])
   \<and> lostEchoes (metrics (deliver_all [EchoTick 0, Message (Some (0, 0)) 40] echo_ready)) = 0"
  using packet_loss_over_resolved_probes
          [OF refl refl, of "[EchoTick 0, Message (Some (0, 0)) 40, EchoTick 250, EchoTick 500, TimeoutFires 1]"]
        packet_loss_over_resolved_probes [OF refl refl, of "[EchoTick 0, Message (Some (0, 0)) 40]"]
  by (simp add: echo_eval)

text \<open>
  Claim C4 as stated fails while a probe is pending. After a probe that timed out and a
  second probe that has just been sent, two probes have been sent and one is lost, but
  \<open>sentEchoes\<close> is 1 and the reported loss is 100 percent, not 50; \<open>sendEcho\<close> itself
  leaves \<open>sentEchoes\<close> as it was.
\<close>

theorem sentEchoes_misses_pending_probes_counterexample:
  "echoSeq (deliver_all [EchoTick 0, TimeoutFires 0, EchoTick 1000] echo_ready) = 2
   \<and> lostEchoes (metrics (deliver_all [EchoTick 0, TimeoutFires 0, EchoTick 1000] echo_ready)) = 1
   \<and> sentEchoes (metrics (deliver_all [EchoTick 0, TimeoutFires 0, EchoTick 1000] echo_ready)) = 1
   \<and> calculatePacketLoss (metrics (deliver_all [EchoTick 0, TimeoutFires 0, EchoTick 1000] echo_ready)) = 100
   \<and> calculatePacketLoss (metrics (deliver_all [EchoTick 0, TimeoutFires 0, EchoTick 1000] echo_ready))
     \<noteq> real (lostEchoes (metrics (deliver_all [EchoTick 0, TimeoutFires 0, EchoTick 1000] echo_ready)))
        / real (echoSeq (deliver_all [EchoTick 0, TimeoutFires 0, EchoTick 1000] echo_ready)) * 100
   \<and> sentEchoes (metrics (sendEcho 0 echo_ready)) = sentEchoes (metrics echo_ready)"
  by (simp add: echo_eval)

lemma outcome_step_exact:
  assumes "echo_inv orch" and "c \<noteq> Cleanup"
  shows "rttProduced q [c] orch + lostProduced q [c] orch
           + (if has (pendingEchoes (deliver c orch)) q \<or> echoSeq (deliver c orch) \<le> q then 1 else 0)
         = (if has (pendingEchoes orch) q \<or> echoSeq orch \<le> q then 1 else (0::nat))"
proof (cases c orch rule: deliver_cases)
  case (sent now)
  have "\<not> has (pendingEchoes orch) (echoSeq orch)" using assms(1) by (auto simp: echo_inv_def)
  thus ?thesis unfolding sent(2) using sent(1)
    by (auto simp: sendEcho_fields has_update)
next
  case (matched k sendTime receiveTime pe)
  have d: "deliver c orch = handleEchoResponse (Some (k, sendTime)) receiveTime orch"
    using matched(1) by simp
  have f: "length (rttSamples (metrics (deliver c orch))) = Suc (length (rttSamples (metrics orch)))"
    "has (pendingEchoes (deliver c orch)) q \<longleftrightarrow> q \<noteq> k \<and> has (pendingEchoes orch) q"
    "echoSeq (deliver c orch) = echoSeq orch"
    unfolding d by (simp_all add: handleEchoResponse_pending[OF matched(2)] has_delete addRttSample_fields)
  have hk: "has (pendingEchoes orch) k" using matched(2) by (simp add: has_def)
  hence "k < echoSeq orch" using assms(1) by (simp add: echo_inv_def)
  thus ?thesis using hk f matched(1) by (auto simp del: deliver.simps)
next
  case (lost k)
  let ?o = "orch\<lparr>timers := timers orch - {k}\<rparr>"
  have h: "has (pendingEchoes ?o) k" using lost(3) by simp
  have d: "deliver c orch = echoTimeout k ?o" using lost by simp
  have f: "lostEchoes (metrics (deliver c orch)) = Suc (lostEchoes (metrics orch))"
    "has (pendingEchoes (deliver c orch)) q \<longleftrightarrow> q \<noteq> k \<and> has (pendingEchoes orch) q"
    "echoSeq (deliver c orch) = echoSeq orch"
    unfolding d by (simp_all add: echoTimeout_pending[OF h] has_delete addLostEcho_fields)
  have "k < echoSeq orch" using assms(1) lost(3) by (simp add: echo_inv_def)
  thus ?thesis using lost(3) f lost(1) by (auto simp del: deliver.simps)
next
  case (timer_only k)
  have f: "lostEchoes (metrics (deliver c orch)) = lostEchoes (metrics orch)"
    "has (pendingEchoes (deliver c orch)) q \<longleftrightarrow> has (pendingEchoes orch) q"
    "echoSeq (deliver c orch) = echoSeq orch"
    unfolding timer_only(4) by simp_all
  show ?thesis using f timer_only(1) by (auto simp del: deliver.simps)
next
  case cleared
  then show ?thesis using assms(2) by simp
next
  case n: nothing
  show ?thesis using n(1)
    by (cases c) (auto split: option.splits simp del: deliver.simps)
qed

lemma outcome_exact:
  assumes "echo_inv orch" and "Cleanup \<notin> set cs"
  shows "rttProduced q cs orch + lostProduced q cs orch
           + (if has (pendingEchoes (deliver_all cs orch)) q \<or> echoSeq (deliver_all cs orch) \<le> q
              then 1 else 0)
         = (if has (pendingEchoes orch) q \<or> echoSeq orch \<le> q then 1 else 0)"
  using assms
proof (induction cs arbitrary: orch)
  case Nil
  then show ?case by simp
next
  case (Cons c cs)
  have i: "echo_inv (deliver c orch)" using Cons.prems(1) by (rule echo_inv_deliver)
  have n: "c \<noteq> Cleanup" "Cleanup \<notin> set cs" using Cons.prems(2) by auto
  have "rttProduced q (c # cs) orch + lostProduced q (c # cs) orch
          + (if has (pendingEchoes (deliver_all (c # cs) orch)) q \<or> echoSeq (deliver_all (c # cs) orch) \<le> q
             then 1 else 0)
        = rttProduced q [c] orch + lostProduced q [c] orch
          + (rttProduced q cs (deliver c orch) + lostProduced q cs (deliver c orch)
             + (if has (pendingEchoes (deliver_all cs (deliver c orch))) q
                   \<or> echoSeq (deliver_all cs (deliver c orch)) \<le> q then 1 else 0))"
    by simp
  also have "\<dots> = rttProduced q [c] orch + lostProduced q [c] orch
          + (if has (pendingEchoes (deliver c orch)) q \<or> echoSeq (deliver c orch) \<le> q then 1 else 0)"
    using Cons.IH[OF i n(2)] by simp
  also have "\<dots> = (if has (pendingEchoes orch) q \<or> echoSeq orch \<le> q then 1 else 0)"
    using outcome_step_exact[OF Cons.prems(1) n(1)] .
  finally show ?case .
qed

text \<open>
  Claim C6, as the code has it. A response whose sequence number is pending adds exactly
  one round-trip sample and no lost echo, removes the probe from the pending set and clears
  its timer. A timeout that fires for a pending probe adds exactly one lost echo and no
  round-trip sample, and removes the probe. A response whose sequence number is not pending
  leaves the whole state as it was. \<open>cleanup\<close> empties the pending set and clears the
  timers of the probes in it, and adds neither a sample nor a lost echo. Over any run of
  callbacks from the start of the echo loop, the round-trip samples and the lost echoes
  that one sequence number produces are together at most one; as long as \<open>cleanup\<close> has
  not run they are exactly one for every probe that was sent and is no longer pending, and
  none for every other sequence number.
\<close>

theorem pendingEcho_at_most_one_outcome:
  "(map_of (pendingEchoes orch) q = Some pe \<longrightarrow>
      length (rttSamples (metrics (deliver (Message (Some (q, sendTime)) receiveTime) orch)))
        = length (rttSamples (metrics orch)) + 1
    \<and> lostEchoes (metrics (deliver (Message (Some (q, sendTime)) receiveTime) orch))
        = lostEchoes (metrics orch)
    \<and> \<not> has (pendingEchoes (deliver (Message (Some (q, sendTime)) receiveTime) orch)) q
    \<and> timeoutId pe \<notin> timers (deliver (Message (Some (q, sendTime)) receiveTime) orch))
 \<and> (has (pendingEchoes orch) q \<and> q \<in> timers orch \<longrightarrow>
      rttSamples (metrics (deliver (TimeoutFires q) orch)) = rttSamples (metrics orch)
    \<and> lostEchoes (metrics (deliver (TimeoutFires q) orch)) = lostEchoes (metrics orch) + 1
    \<and> \<not> has (pendingEchoes (deliver (TimeoutFires q) orch)) q
    \<and> q \<notin> timers (deliver (TimeoutFires q) orch))
 \<and> (\<not> has (pendingEchoes orch) q \<longrightarrow>
      deliver (Message (Some (q, sendTime)) receiveTime) orch = orch)
 \<and> (pendingEchoes (deliver Cleanup orch) = []
    \<and> rttSamples (metrics (deliver Cleanup orch)) = rttSamples (metrics orch)
    \<and> lostEchoes (metrics (deliver Cleanup orch)) = lostEchoes (metrics orch)
    \<and> (map_of (pendingEchoes orch) q = Some pe \<longrightarrow> timeoutId pe \<notin> timers (deliver Cleanup orch)))
 \<and> rttProduced q cs echo_ready + lostProduced q cs echo_ready \<le> 1
 \<and> (Cleanup \<notin> set cs \<longrightarrow>
      rttProduced q cs echo_ready + lostProduced q cs echo_ready
        = (if q < echoSeq (deliver_all cs echo_ready)
              \<and> \<not> has (pendingEchoes (deliver_all cs echo_ready)) q
           then 1 else 0))"
proof -
  have a: "map_of (pendingEchoes orch) q = Some pe \<longrightarrow>
      length (rttSamples (metrics (deliver (Message (Some (q, sendTime)) receiveTime) orch)))
        = length (rttSamples (metrics orch)) + 1
    \<and> lostEchoes (metrics (deliver (Message (Some (q, sendTime)) receiveTime) orch))
        = lostEchoes (metrics orch)
    \<and> \<not> has (pendingEchoes (deliver (Message (Some (q, sendTime)) receiveTime) orch)) q
    \<and> timeoutId pe \<notin> timers (deliver (Message (Some (q, sendTime)) receiveTime) orch)"
  proof
    assume p: "map_of (pendingEchoes orch) q = Some pe"
    show "length (rttSamples (metrics (deliver (Message (Some (q, sendTime)) receiveTime) orch)))
        = length (rttSamples (metrics orch)) + 1
    \<and> lostEchoes (metrics (deliver (Message (Some (q, sendTime)) receiveTime) orch))
        = lostEchoes (metrics orch)
    \<and> \<not> has (pendingEchoes (deliver (Message (Some (q, sendTime)) receiveTime) orch)) q
    \<and> timeoutId pe \<notin> timers (deliver (Message (Some (q, sendTime)) receiveTime) orch)"
      by (simp add: handleEchoResponse_pending[OF p] addRttSample_fields has_delete)
  qed
  have b: "has (pendingEchoes orch) q \<and> q \<in> timers orch \<longrightarrow>
      rttSamples (metrics (deliver (TimeoutFires q) orch)) = rttSamples (metrics orch)
    \<and> lostEchoes (metrics (deliver (TimeoutFires q) orch)) = lostEchoes (metrics orch) + 1
    \<and> \<not> has (pendingEchoes (deliver (TimeoutFires q) orch)) q
    \<and> q \<notin> timers (deliver (TimeoutFires q) orch)"
  proof
    assume p: "has (pendingEchoes orch) q \<and> q \<in> timers orch"
    let ?o = "orch\<lparr>timers := timers orch - {q}\<rparr>"
    have h: "has (pendingEchoes ?o) q" using p by simp
    have e: "deliver (TimeoutFires q) orch = echoTimeout q ?o" using p by simp
    show "rttSamples (metrics (deliver (TimeoutFires q) orch)) = rttSamples (metrics orch)
    \<and> lostEchoes (metrics (deliver (TimeoutFires q) orch)) = lostEchoes (metrics orch) + 1
    \<and> \<not> has (pendingEchoes (deliver (TimeoutFires q) orch)) q
    \<and> q \<notin> timers (deliver (TimeoutFires q) orch)"
      unfolding e by (simp add: echoTimeout_pending[OF h] addLostEcho_fields has_delete)
  qed
  have c: "\<not> has (pendingEchoes orch) q \<longrightarrow>
      deliver (Message (Some (q, sendTime)) receiveTime) orch = orch"
    by (simp add: handleEchoResponse_absent)
  have k: "pendingEchoes (deliver Cleanup orch) = []
    \<and> rttSamples (metrics (deliver Cleanup orch)) = rttSamples (metrics orch)
    \<and> lostEchoes (metrics (deliver Cleanup orch)) = lostEchoes (metrics orch)
    \<and> (map_of (pendingEchoes orch) q = Some pe \<longrightarrow> timeoutId pe \<notin> timers (deliver Cleanup orch))"
  proof -
    have "map_of (pendingEchoes orch) q = Some pe \<Longrightarrow> pe \<in> snd ` set (pendingEchoes orch)"
      by (metis image_eqI map_of_SomeD snd_conv)
    thus ?thesis by (auto simp: cleanup_def)
  qed
  have d: "rttProduced q cs echo_ready + lostProduced q cs echo_ready \<le> 1"
    using outcome_bound[OF echo_inv_ready, of q cs] by (simp split: if_splits)
  have e: "Cleanup \<notin> set cs \<longrightarrow>
      rttProduced q cs echo_ready + lostProduced q cs echo_ready
        = (if q < echoSeq (deliver_all cs echo_ready)
              \<and> \<not> has (pendingEchoes (deliver_all cs echo_ready)) q
           then 1 else 0)"
  proof
    assume n: "Cleanup \<notin> set cs"
    have i: "echo_inv (deliver_all cs echo_ready)" using echo_inv_ready by (rule echo_inv_deliver_all)
    hence x: "has (pendingEchoes (deliver_all cs echo_ready)) q \<longrightarrow> q < echoSeq (deliver_all cs echo_ready)"
      by (simp add: echo_inv_def)
    have z: "echoSeq echo_ready = 0" by (simp add: echo_ready_def new_orchestrator_def)
    show "rttProduced q cs echo_ready + lostProduced q cs echo_ready
        = (if q < echoSeq (deliver_all cs echo_ready)
              \<and> \<not> has (pendingEchoes (deliver_all cs echo_ready)) q
           then 1 else 0)"
      using outcome_exact[OF echo_inv_ready n, of q] x z by (auto split: if_splits)
  qed
  from a b c k d e show ?thesis by blast
qed

text \<open>
  The theorem at a probe that has just been sent, at a sequence number that was never sent,
  and over the run "send, response, timeout, send": probe 0 has its one outcome, probe 1 is
  pending and has none.
\<close>

theorem pendingEcho_at_most_one_outcome_witness:
  "map_of (pendingEchoes (deliver (EchoTick 1000) echo_ready)) 0 = Some \<lparr>pe_timestamp = 1000, timeoutId = 0\<rparr>
   \<and> length (rttSamples (metrics (deliver (Message (Some (0, 1000)) 1040) (deliver (EchoTick 1000) echo_ready)))) = 1
   \<and> lostEchoes (metrics (deliver (Message (Some (0, 1000)) 1040) (deliver (EchoTick 1000) echo_ready))) = 0
   \<and> has (pendingEchoes (deliver (EchoTick 1000) echo_ready)) 0
   \<and> 0 \<in> timers (deliver (EchoTick 1000) echo_ready)
   \<and> lostEchoes (metrics (deliver (TimeoutFires 0) (deliver (EchoTick 1000) echo_ready))) = 1
   \<and> rttSamples (metrics (deliver (TimeoutFires 0) (deliver (EchoTick 1000) echo_ready))) = []
   \<and> 0 \<notin> timers (deliver Cleanup (deliver (EchoTick 1000) echo_ready))
   \<and> \<not> has (pendingEchoes echo_ready) 5
   \<and> deliver (Message (Some (5, 0)) 10) echo_ready = echo_ready
   \<and> Cleanup \<notin> set [EchoTick 1000, Message (Some (0, 1000)) 1040, TimeoutFires 0, EchoTick 1250]
   \<and> rttProduced 0 [EchoTick 1000, Message (Some (0, 1000)) 1040, TimeoutFires 0, EchoTick 1250] echo_ready = 1
   \<and> lostProduced 0 [EchoTick 1000, Message (Some (0, 1000)) 1040, TimeoutFires 0, EchoTick 1250] echo_ready = 0
   \<and> rttProduced 1 [EchoTick 1000, Message (Some (0, 1000)) 1040, TimeoutFires 0, EchoTick 1250] echo_ready
      + lostProduced 1 [EchoTick 1000, Message (Some (0, 1000)) 1040, TimeoutFires 0, EchoTick 1250] echo_ready = 0"
  using pendingEcho_at_most_one_outcome
          [of "deliver (EchoTick 1000) echo_ready" 0 "\<lparr>pe_timestamp = 1000, timeoutId = 0\<rparr>" 1000 1040
              "[EchoTick 1000, Message (Some (0, 1000)) 1040, TimeoutFires 0, EchoTick 1250]"]
        pendingEcho_at_most_one_outcome
          [of "deliver (EchoTick 1000) echo_ready" 1 "\<lparr>pe_timestamp = 1000, timeoutId = 0\<rparr>" 1000 1040
              "[EchoTick 1000, Message (Some (0, 1000)) 1040, TimeoutFires 0, EchoTick 1250]"]
        pendingEcho_at_most_one_outcome [of echo_ready 5 "\<lparr>pe_timestamp = 0, timeoutId = 0\<rparr>" 0 10 "[]"]
  by (simp add: echo_eval)

text \<open>
  Claim C6 as stated fails for a probe that is pending when \<open>cleanup\<close> runs, as it does
  on \<open>stop()\<close> and at the end of \<open>start()\<close>: probe 0 is sent and is pending, \<open>cleanup\<close>
  drops it, and neither its late response nor its timeout produces anything. The probe has
  neither of the two outcomes.
\<close>

theorem pendingEcho_dropped_by_cleanup_counterexample:
  "has (pendingEchoes (deliver_all [EchoTick 1000] echo_ready)) 0
   \<and> \<not> has (pendingEchoes (deliver_all [EchoTick 1000, Cleanup] echo_ready)) 0
   \<and> rttProduced 0 [EchoTick 1000, Cleanup, Message (Some (0, 1000)) 1040, TimeoutFires 0] echo_ready = 0
   \<and> lostProduced 0 [EchoTick 1000, Cleanup, Message (Some (0, 1000)) 1040, TimeoutFires 0] echo_ready = 0
   \<and> rttSamples (metrics (deliver_all [EchoTick 1000, Cleanup, Message (Some (0, 1000)) 1040,
                                        TimeoutFires 0] echo_ready)) = []
   \<and> lostEchoes (metrics (deliver_all [EchoTick 1000, Cleanup, Message (Some (0, 1000)) 1040,
                                        TimeoutFires 0] echo_ready)) = 0"
  by (simp add: echo_eval)

section \<open>Download stream service\<close>


lemma MAX_is_100_chunks: "MAX_BYTES_PER_STREAM = 100 * CHUNK_SIZE"
  by (simp add: MAX_BYTES_PER_STREAM_def CHUNK_SIZE_def)

lemma sendChunk_stop:
  "stopNow endTime clock s \<Longrightarrow>
   sendChunk endTime clock s
     = (False, s\<lparr>writableEnded := True, bytesServed := bytesServed s + bytesSent s\<rparr>)"
  by (cases "writableEnded s") (simp_all add: sendChunk_def)

lemma sendChunk_write:
  "\<not> stopNow endTime clock s \<Longrightarrow>
   sendChunk endTime clock s
     = (True, s\<lparr>writes := writes s @ [min CHUNK_SIZE (MAX_BYTES_PER_STREAM - bytesSent s)],
                bytesSent := bytesSent s + min CHUNK_SIZE (MAX_BYTES_PER_STREAM - bytesSent s)\<rparr>)"
  by (auto simp: sendChunk_def Let_def min_def)

lemma closeHandler_fields:
  "bytesSent (closeHandler s) = bytesSent s" "writes (closeHandler s) = writes s"
  "writableEnded (closeHandler s) = writableEnded s"
  by (simp_all add: closeHandler_def)

lemma stopNow_closeHandler: "stopNow endTime clock (closeHandler s) = stopNow endTime clock s"
  by (simp add: stopNow_def closeHandler_fields)

lemma runDownload_invariant:
  "bytesSent s \<le> MAX_BYTES_PER_STREAM \<Longrightarrow> sum_list (writes s) = bytesSent s \<Longrightarrow>
   bytesSent (runDownload endTime es s) \<le> MAX_BYTES_PER_STREAM
   \<and> sum_list (writes (runDownload endTime es s)) = bytesSent (runDownload endTime es s)"
proof (induction endTime es s rule: runDownload.induct)
  case (1 endTime s)
  then show ?case by simp
next
  case (2 endTime es s)
  then show ?case by (simp add: closeHandler_fields)
next
  case (3 endTime clock es s)
  show ?case
  proof (cases "stopNow endTime clock s")
    case True
    then show ?thesis using "3.prems" by (simp add: sendChunk_stop)
  next
    case False
    let ?s = "s\<lparr>writes := writes s @ [min CHUNK_SIZE (MAX_BYTES_PER_STREAM - bytesSent s)],
                bytesSent := bytesSent s + min CHUNK_SIZE (MAX_BYTES_PER_STREAM - bytesSent s)\<rparr>"
    have e: "sendChunk endTime clock s = (True, ?s)" using False by (rule sendChunk_write)
    have a: "bytesSent ?s \<le> MAX_BYTES_PER_STREAM" using "3.prems"(1) by simp
    have b: "sum_list (writes ?s) = bytesSent ?s" using "3.prems"(2) by simp
    show ?thesis using "3.IH"[OF e[symmetric] _ a b] e by simp
  qed
qed

lemma runDownload_bytesServed:
  "writes (runDownload endTime (map Call cs) (s\<lparr>bytesServed := n\<rparr>))
     = writes (runDownload endTime (map Call cs) s)
   \<and> bytesSent (runDownload endTime (map Call cs) (s\<lparr>bytesServed := n\<rparr>))
     = bytesSent (runDownload endTime (map Call cs) s)
   \<and> writableEnded (runDownload endTime (map Call cs) (s\<lparr>bytesServed := n\<rparr>))
     = writableEnded (runDownload endTime (map Call cs) s)"
proof (induction cs arbitrary: s)
  case Nil
  then show ?case by simp
next
  case (Cons c cs)
  have st: "stopNow endTime c (s\<lparr>bytesServed := n\<rparr>) = stopNow endTime c s"
    by (simp add: stopNow_def)
  show ?case
  proof (cases "stopNow endTime c s")
    case True
    then show ?thesis using st by (simp add: sendChunk_stop)
  next
    case False
    let ?w = "min CHUNK_SIZE (MAX_BYTES_PER_STREAM - bytesSent s)"
    let ?s = "s\<lparr>writes := writes s @ [?w], bytesSent := bytesSent s + ?w\<rparr>"
    have n: "\<not> stopNow endTime c (s\<lparr>bytesServed := n\<rparr>)" using False st by simp
    have "runDownload endTime (map Call (c # cs)) (s\<lparr>bytesServed := n\<rparr>)
                = runDownload endTime (map Call cs) (snd (sendChunk endTime c (s\<lparr>bytesServed := n\<rparr>)))"
      using sendChunk_write[OF n] by simp
    moreover have "snd (sendChunk endTime c (s\<lparr>bytesServed := n\<rparr>)) = ?s\<lparr>bytesServed := n\<rparr>"
      unfolding sendChunk_write[OF n] by simp
    ultimately have e1: "runDownload endTime (map Call (c # cs)) (s\<lparr>bytesServed := n\<rparr>)
                = runDownload endTime (map Call cs) (?s\<lparr>bytesServed := n\<rparr>)"
      by (rule trans[OF _ arg_cong])
    have e2: "runDownload endTime (map Call (c # cs)) s = runDownload endTime (map Call cs) ?s"
      using sendChunk_write[OF False] by simp
    show ?thesis unfolding e1 e2 by (rule Cons.IH)
  qed
qed

lemma runDownload_closeHandler:
  "writes (runDownload endTime (map Call cs) (closeHandler s))
     = writes (runDownload endTime (map Call cs) s)
   \<and> bytesSent (runDownload endTime (map Call cs) (closeHandler s))
     = bytesSent (runDownload endTime (map Call cs) s)
   \<and> writableEnded (runDownload endTime (map Call cs) (closeHandler s))
     = writableEnded (runDownload endTime (map Call cs) s)"
  using runDownload_bytesServed[where s = s and n = "bytesServed s + bytesSent s" and endTime = endTime and cs = cs]
  by (simp add: closeHandler_def)

text \<open>The caller's close changes neither what is written nor when the response ends.\<close>

lemma runDownload_ignores_close:
  "writes (runDownload endTime es s) = writes (runDownload endTime (map Call (calls es)) s)
   \<and> bytesSent (runDownload endTime es s) = bytesSent (runDownload endTime (map Call (calls es)) s)
   \<and> writableEnded (runDownload endTime es s)
       = writableEnded (runDownload endTime (map Call (calls es)) s)"
proof (induction es arbitrary: s)
  case Nil
  then show ?case by simp
next
  case (Cons e es)
  show ?case
  proof (cases e)
    case (Call clock)
    show ?thesis
    proof (cases "stopNow endTime clock s")
      case True
      then show ?thesis using Call by (simp add: sendChunk_stop)
    next
      case False
      then show ?thesis using Call Cons.IH by (simp add: sendChunk_write)
    qed
  next
    case CallerCloses
    show ?thesis
      using CallerCloses Cons.IH[of "closeHandler s"] runDownload_closeHandler[of endTime "calls es" s]
      by simp
  qed
qed

lemma sendChunk_full_chunk:
  assumes "bytesSent s = k * CHUNK_SIZE" and "\<not> stopNow endTime clock s"
  shows "sendChunk endTime clock s
           = (True, s\<lparr>writes := writes s @ [CHUNK_SIZE], bytesSent := Suc k * CHUNK_SIZE\<rparr>)"
    and "k < 100"
proof -
  have "k * CHUNK_SIZE < 100 * CHUNK_SIZE"
    using assms by (simp add: stopNow_def MAX_is_100_chunks)
  thus k: "k < 100" by (simp add: CHUNK_SIZE_def)
  hence "Suc k * CHUNK_SIZE \<le> 100 * CHUNK_SIZE" by (intro mult_le_mono1) simp
  moreover have "bytesSent s + CHUNK_SIZE = Suc k * CHUNK_SIZE" using assms(1) by simp
  ultimately have "min CHUNK_SIZE (MAX_BYTES_PER_STREAM - bytesSent s) = CHUNK_SIZE"
    by (simp only: MAX_is_100_chunks)
  thus "sendChunk endTime clock s
           = (True, s\<lparr>writes := writes s @ [CHUNK_SIZE], bytesSent := Suc k * CHUNK_SIZE\<rparr>)"
    using assms by (simp add: sendChunk_write add.commute)
qed

lemma runDownload_first_stop:
  assumes "bytesSent s = k * CHUNK_SIZE"
    and "\<forall>i<length pre. \<not> stopNow endTime (pre ! i) (s\<lparr>bytesSent := (k + i) * CHUNK_SIZE\<rparr>)"
    and "stopNow endTime clock (s\<lparr>bytesSent := (k + length pre) * CHUNK_SIZE\<rparr>)"
  shows "writableEnded (runDownload endTime (map Call (pre @ clock # rest)) s)
       \<and> writes (runDownload endTime (map Call (pre @ clock # rest)) s)
           = writes s @ replicate (length pre) CHUNK_SIZE
       \<and> bytesSent (runDownload endTime (map Call (pre @ clock # rest)) s) = (k + length pre) * CHUNK_SIZE"
  using assms
proof (induction pre arbitrary: s k)
  case Nil
  hence "stopNow endTime clock s" by (simp add: stopNow_def)
  then show ?case using Nil by (simp add: sendChunk_stop)
next
  case (Cons p pre)
  have n: "\<not> stopNow endTime p s"
    using Cons.prems(1) Cons.prems(2)[rule_format, of 0] by (simp add: stopNow_def)
  let ?s = "s\<lparr>writes := writes s @ [CHUNK_SIZE], bytesSent := Suc k * CHUNK_SIZE\<rparr>"
  have e: "runDownload endTime (map Call ((p # pre) @ clock # rest)) s
           = runDownload endTime (map Call (pre @ clock # rest)) ?s"
    using sendChunk_full_chunk(1)[OF Cons.prems(1) n] by simp
  have a: "bytesSent ?s = Suc k * CHUNK_SIZE" by simp
  have b: "\<forall>i<length pre. \<not> stopNow endTime (pre ! i) (?s\<lparr>bytesSent := (Suc k + i) * CHUNK_SIZE\<rparr>)"
  proof (intro allI impI)
    fix i assume "i < length pre"
    hence "\<not> stopNow endTime ((p # pre) ! Suc i) (s\<lparr>bytesSent := (k + Suc i) * CHUNK_SIZE\<rparr>)"
      using Cons.prems(2) by (metis Suc_less_eq length_Cons)
    thus "\<not> stopNow endTime (pre ! i) (?s\<lparr>bytesSent := (Suc k + i) * CHUNK_SIZE\<rparr>)"
      by (simp add: stopNow_def)
  qed
  have c: "stopNow endTime clock (?s\<lparr>bytesSent := (Suc k + length pre) * CHUNK_SIZE\<rparr>)"
    using Cons.prems(3) by (simp add: stopNow_def)
  show ?case unfolding e using Cons.IH[OF a b c] by (simp add: replicate_app_Cons_same)
qed

lemma runDownload_stops_within:
  assumes "bytesSent s = k * CHUNK_SIZE" and "k \<le> 100" and "100 - k < length cs"
  shows "writableEnded (runDownload endTime (map Call cs) s)"
  using assms
proof (induction cs arbitrary: s k)
  case Nil
  then show ?case by simp
next
  case (Cons c cs)
  show ?case
  proof (cases "stopNow endTime c s")
    case True
    then show ?thesis by (simp add: sendChunk_stop)
  next
    case False
    note f = sendChunk_full_chunk[OF Cons.prems(1) False]
    let ?s = "s\<lparr>writes := writes s @ [CHUNK_SIZE], bytesSent := Suc k * CHUNK_SIZE\<rparr>"
    have "writableEnded (runDownload endTime (map Call cs) ?s)"
      using f(2) Cons.prems(3) by (intro Cons.IH[of _ "Suc k"]) simp_all
    thus ?thesis using f(1) by simp
  qed
qed

text \<open>
  Claim C8, as the code has it. The duration of a download is the requested number of
  seconds with an upper bound of 120: for a request of at least one second this is the
  request clamped to the range from 1 to 120, a request of 0 seconds or without a number
  gets the default of 15 seconds, and a negative request is kept as it is. The bytes
  written never exceed the ceiling of 25 MB and are the sum of the chunks written. The
  response is ended at the first call of \<open>sendChunk\<close> at which the clock has reached the
  end time or the bytes sent have reached the ceiling, after one full chunk for every call
  before it, wherever among the calls the caller closes the connection; and it is ended
  within 101 calls. A call on a response that has been ended writes nothing.
\<close>

theorem download_bounded:
  "(1 \<le> n \<longrightarrow> downloadSeconds (Some n) = max 1 (min n 120))
   \<and> downloadSeconds (Some 0) = 15 \<and> downloadSeconds None = 15
   \<and> (n < 0 \<longrightarrow> downloadSeconds (Some n) = n)
   \<and> bytesSent (download parsed startClock es) \<le> MAX_BYTES_PER_STREAM
   \<and> sum_list (writes (download parsed startClock es)) = bytesSent (download parsed startClock es)
   \<and> (calls es = pre @ clock # rest
        \<and> (\<forall>i<length pre. pre ! i < startClock + downloadSeconds parsed * 1000
                            \<and> i * CHUNK_SIZE < MAX_BYTES_PER_STREAM)
        \<and> (clock \<ge> startClock + downloadSeconds parsed * 1000
             \<or> length pre * CHUNK_SIZE \<ge> MAX_BYTES_PER_STREAM) \<longrightarrow>
        writableEnded (download parsed startClock es)
      \<and> writes (download parsed startClock es) = replicate (length pre) CHUNK_SIZE)
   \<and> (100 < length (calls es) \<longrightarrow> writableEnded (download parsed startClock es))
   \<and> (writableEnded s \<longrightarrow>
        sendChunk endTime now s = (False, s\<lparr>bytesServed := bytesServed s + bytesSent s\<rparr>))"
proof -
  let ?init = "\<lparr>bytesSent = 0, writes = [], writableEnded = False, bytesServed = 0\<rparr>"
  let ?e = "startClock + downloadSeconds parsed * 1000"
  note ic = runDownload_ignores_close[of ?e es ?init]
  have a: "(1 \<le> n \<longrightarrow> downloadSeconds (Some n) = max 1 (min n 120))
   \<and> downloadSeconds (Some 0) = 15 \<and> downloadSeconds None = 15
   \<and> (n < 0 \<longrightarrow> downloadSeconds (Some n) = n)"
    by (auto simp: downloadSeconds_def)
  have b: "bytesSent (download parsed startClock es) \<le> MAX_BYTES_PER_STREAM
   \<and> sum_list (writes (download parsed startClock es)) = bytesSent (download parsed startClock es)"
    unfolding download_def by (rule runDownload_invariant) simp_all
  have c: "calls es = pre @ clock # rest
        \<and> (\<forall>i<length pre. pre ! i < ?e \<and> i * CHUNK_SIZE < MAX_BYTES_PER_STREAM)
        \<and> (clock \<ge> ?e \<or> length pre * CHUNK_SIZE \<ge> MAX_BYTES_PER_STREAM) \<longrightarrow>
        writableEnded (download parsed startClock es)
      \<and> writes (download parsed startClock es) = replicate (length pre) CHUNK_SIZE"
  proof
    assume h: "calls es = pre @ clock # rest
        \<and> (\<forall>i<length pre. pre ! i < ?e \<and> i * CHUNK_SIZE < MAX_BYTES_PER_STREAM)
        \<and> (clock \<ge> ?e \<or> length pre * CHUNK_SIZE \<ge> MAX_BYTES_PER_STREAM)"
    have "writableEnded (runDownload ?e (map Call (pre @ clock # rest)) ?init)
       \<and> writes (runDownload ?e (map Call (pre @ clock # rest)) ?init)
           = writes ?init @ replicate (length pre) CHUNK_SIZE
       \<and> bytesSent (runDownload ?e (map Call (pre @ clock # rest)) ?init) = (0 + length pre) * CHUNK_SIZE"
      using h by (intro runDownload_first_stop) (auto simp: stopNow_def)
    thus "writableEnded (download parsed startClock es)
      \<and> writes (download parsed startClock es) = replicate (length pre) CHUNK_SIZE"
      using ic h by (simp add: download_def)
  qed
  have d: "100 < length (calls es) \<longrightarrow> writableEnded (download parsed startClock es)"
    unfolding download_def using runDownload_stops_within[of ?init 0 "calls es" ?e] ic by simp
  have e: "writableEnded s \<longrightarrow>
        sendChunk endTime now s = (False, s\<lparr>bytesServed := bytesServed s + bytesSent s\<rparr>)"
    by (simp add: sendChunk_def stopNow_def)
  from a b c d e show ?thesis by blast
qed

text \<open>
  The theorem at a request of 5 seconds whose third call comes after the end time and
  whose caller closes the connection after the first call (the second chunk is still
  written, and the bytes are reported twice), at a request of 500 seconds, at 101 calls at
  which the clock stands still, and at a call on an ended response.
\<close>

theorem download_bounded_witness:
  "downloadSeconds (Some 5) = 5 \<and> downloadSeconds (Some 500) = 120
   \<and> downloadSeconds (Some (- 5)) = - 5
   \<and> calls [Call 1000, CallerCloses, Call 2000, Call 6000, Call 6001] = [1000, 2000] @ 6000 # [6001]
   \<and> download (Some 5) 1000 [Call 1000, CallerCloses, Call 2000, Call 6000, Call 6001]
      = \<lparr>bytesSent = 2 * CHUNK_SIZE, writes = [CHUNK_SIZE, CHUNK_SIZE], writableEnded = True,
         bytesServed = 3 * CHUNK_SIZE\<rparr>
   \<and> writableEnded (download None 0 (replicate 101 (Call 0)))
   \<and> sendChunk 6000 1000 \<lparr>bytesSent = 0, writes = [], writableEnded = True, bytesServed = 0\<rparr>
      = (False, \<lparr>bytesSent = 0, writes = [], writableEnded = True, bytesServed = 0\<rparr>)"
proof -
  have "\<And>m. calls (replicate m (Call 0)) = replicate m 0"
  proof -
    fix m show "calls (replicate m (Call 0)) = replicate m 0" by (induction m) simp_all
  qed
  hence k: "calls (replicate 101 (Call 0)) = replicate 101 0" .
  note a = download_bounded [of 5 "Some 5" 1000 "[Call 1000, CallerCloses, Call 2000, Call 6000, Call 6001]"
          "[1000, 2000]" 6000 "[6001]"
          "\<lparr>bytesSent = 0, writes = [], writableEnded = True, bytesServed = 0\<rparr>" 6000 1000]
  note b = download_bounded [of 500 None 0 "replicate 101 (Call 0)" "[]" 15000 "[]"
          "\<lparr>bytesSent = 0, writes = [], writableEnded = True, bytesServed = 0\<rparr>" 0 0]
  note c = download_bounded [of "- 5" None 0 "[]" "[]" 15000 "[]"
          "\<lparr>bytesSent = 0, writes = [], writableEnded = True, bytesServed = 0\<rparr>" 0 0]
  have 1: "downloadSeconds (Some 5) = 5" using a by simp
  have 2: "downloadSeconds (Some 500) = 120" using b by simp
  have 3: "downloadSeconds (Some (- 5)) = - 5" using c by simp
  have 4: "calls [Call 1000, CallerCloses, Call 2000, Call 6000, Call 6001] = [1000, 2000] @ 6000 # [6001]"
    by simp
  have 5: "download (Some 5) 1000 [Call 1000, CallerCloses, Call 2000, Call 6000, Call 6001]
      = \<lparr>bytesSent = 2 * CHUNK_SIZE, writes = [CHUNK_SIZE, CHUNK_SIZE], writableEnded = True,
         bytesServed = 3 * CHUNK_SIZE\<rparr>"
    by (simp add: download_def downloadSeconds_def sendChunk_def stopNow_def closeHandler_def
        MAX_BYTES_PER_STREAM_def CHUNK_SIZE_def)
  have 6: "writableEnded (download None 0 (replicate 101 (Call 0)))" using b k by simp
  have 7: "sendChunk 6000 1000 \<lparr>bytesSent = 0, writes = [], writableEnded = True, bytesServed = 0\<rparr>
      = (False, \<lparr>bytesSent = 0, writes = [], writableEnded = True, bytesServed = 0\<rparr>)"
    using a by simp
  from 1 2 3 4 5 6 7 show ?thesis by blast
qed

text \<open>
  Claim C8 as stated fails below one second: a request of 0 seconds runs for the default
  of 15 seconds and a request of -5 seconds keeps its negative duration, so the first call
  of \<open>sendChunk\<close> ends the response without a byte; the clamp to the range from 1 to 120
  would give 1 second for both.
\<close>

theorem download_no_lower_clamp_counterexample:
  "downloadSeconds (Some 0) \<noteq> max 1 (min 0 120)
   \<and> downloadSeconds (Some (- 5)) \<noteq> max 1 (min (- 5) 120)
   \<and> download (Some (- 5)) 1000 [Call 1000]
      = \<lparr>bytesSent = 0, writes = [], writableEnded = True, bytesServed = 0\<rparr>"
  by (simp add: downloadSeconds_def download_def sendChunk_def stopNow_def)

section \<open>Upload sink service\<close>

text \<open>
  Whatever events reach the handlers of \<open>POST /upload\<close> in server.js, they never answer
  with status 413 and never destroy the connection; a stream that stays within the
  ceiling is answered at its end with the bytes received and the duration.
\<close>

lemma uploadHandler_never_refuses:
  "responded r \<noteq> Some TooLarge \<Longrightarrow> \<not> destroyed r \<Longrightarrow>
   responded (events (uploadHandler startTime) es r) \<noteq> Some TooLarge
   \<and> \<not> destroyed (events (uploadHandler startTime) es r)"
proof (induction es arbitrary: r)
  case Nil
  then show ?case by simp
next
  case (Cons e es)
  have "responded (uploadHandler startTime e r) \<noteq> Some TooLarge \<and> \<not> destroyed (uploadHandler startTime e r)"
    using Cons.prems by (cases e) (simp_all add: Let_def)
  thus ?case using Cons.IH by simp
qed

lemma upload_natural_end:
  "sum_list lens \<le> MAX_BYTES_PER_STREAM \<Longrightarrow>
   events (uploadHandler startTime) (map Data lens @ [End clock]) newUpload
     = newUpload\<lparr>receivedBytes := sum_list lens,
                 responded := Some (Json (sum_list lens) (clock - startTime))\<rparr>"
proof -
  have g: "\<And>r. receivedBytes r + sum_list lens \<le> MAX_BYTES_PER_STREAM \<Longrightarrow>
        events (uploadHandler startTime) (map Data lens @ [End clock]) r
          = r\<lparr>receivedBytes := receivedBytes r + sum_list lens,
               responded := Some (Json (receivedBytes r + sum_list lens) (clock - startTime))\<rparr>"
  proof (induction lens)
    case Nil
    then show ?case by simp
  next
    case (Cons a lens)
    let ?r = "r\<lparr>receivedBytes := receivedBytes r + a\<rparr>"
    have "uploadHandler startTime (Data a) r = ?r" using Cons.prems by (simp add: Let_def)
    moreover have "receivedBytes ?r + sum_list lens \<le> MAX_BYTES_PER_STREAM" using Cons.prems by simp
    ultimately show ?case using Cons.IH[of ?r] by (simp add: add.assoc)
  qed
  assume "sum_list lens \<le> MAX_BYTES_PER_STREAM"
  thus ?thesis using g[of newUpload] by (simp add: newUpload_def)
qed

text \<open>
  Claim C9. An upload of 25 MB followed by one more byte exceeds the ceiling. The handler
  of server.js pauses the request and does nothing else: there is no answer and the
  connection is not destroyed, and if the \<open>end\<close> handler runs afterwards it answers with
  the byte count, not with "entity too large". The handler of \<open>createUploadLimiter\<close>, on
  the same input, answers with status 413 and destroys the connection, as the claim says.
  An upload below the ceiling is answered at its end with the bytes received and the
  duration.
\<close>

theorem upload_over_ceiling_not_refused:
  "events (uploadHandler 0) [Data MAX_BYTES_PER_STREAM, Data 1] newUpload
     = \<lparr>receivedBytes = MAX_BYTES_PER_STREAM + 1, paused = True, destroyed = False, responded = None\<rparr>
   \<and> events (uploadHandler 0) [Data MAX_BYTES_PER_STREAM, Data 1, End 50] newUpload
     = \<lparr>receivedBytes = MAX_BYTES_PER_STREAM + 1, paused = True, destroyed = False,
        responded = Some (Json (MAX_BYTES_PER_STREAM + 1) 50)\<rparr>
   \<and> events (uploadLimiter MAX_BYTES_PER_STREAM) [Data MAX_BYTES_PER_STREAM, Data 1] newUpload
     = \<lparr>receivedBytes = MAX_BYTES_PER_STREAM + 1, paused = True, destroyed = True,
        responded = Some TooLarge\<rparr>
   \<and> events (uploadHandler 0) [Data 65536, End 12] newUpload
     = \<lparr>receivedBytes = 65536, paused = False, destroyed = False, responded = Some (Json 65536 12)\<rparr>"
  by (simp add: newUpload_def Let_def MAX_BYTES_PER_STREAM_def)

section \<open>One list of throughput samples for both directions\<close>

















section \<open>Terminal events of a run\<close>

text \<open>
  The stream tasks catch every error, so the only errors that reach the \<open>catch\<close> of
  \<open>start\<close> are the ones that \<open>runDiscovery\<close> and \<open>startLatencyTest\<close> make, with
  the name \<open>Error\<close>, and an error that \<open>createWebSocket\<close> throws. Unless that error
  is itself named \<open>AbortError\<close>, \<open>start\<close> does not emit \<open>cancelled\<close>, whatever the
  outside world does and whenever the user stops the test.
\<close>

lemma quiet_emit: "ev \<noteq> Cancelled \<Longrightarrow> quiet orch \<Longrightarrow> quiet (emit ev orch)"
  by (simp add: quiet_def emit_def)

lemma quiet_metrics [simp]: "quiet (orch\<lparr>metrics := m\<rparr>) = quiet orch"
  by (simp add: quiet_def)

lemma quiet_phase [simp]: "quiet (orch\<lparr>phase := p\<rparr>) = quiet orch"
  by (simp add: quiet_def)

lemma quiet_stop: "quiet (stop orch) = quiet orch"
  by (simp add: quiet_def stop_def cleanup_def split: option.splits)

lemma quiet_cleanup: "quiet (cleanup orch) = quiet orch"
  by (simp add: quiet_def cleanup_def)

lemma quiet_downloadLoop: "quiet orch \<Longrightarrow> quiet (snd (downloadLoop w rs b l orch))"
  by (induction rs arbitrary: b l orch) (auto simp: quiet_emit)

lemma quiet_runSingleDownloadStream:
  "quiet orch \<Longrightarrow> quiet (runSingleDownloadStream i d w script orch)"
  using quiet_downloadLoop[of orch w "chunksRead script" 0 "firstClock script"]
  by (auto simp: runSingleDownloadStream_def split: option.splits sum.splits prod.splits)

lemma quiet_fold:
  "(\<And>i orch. quiet orch \<Longrightarrow> quiet (f i orch)) \<Longrightarrow> quiet orch \<Longrightarrow> quiet (fold f is orch)"
  by (induction "is" arbitrary: orch) simp_all

lemma quiet_uploadLoop: "quiet orch \<Longrightarrow> quiet (uploadLoop e its orch)"
  by (induction its arbitrary: orch) (auto simp: quiet_emit split: sum.splits)

lemma quiet_runDownloadStreams: "quiet orch \<Longrightarrow> quiet (runDownloadStreams n d w scripts orch)"
  unfolding runDownloadStreams_def by (rule quiet_fold) (simp_all add: quiet_runSingleDownloadStream)

lemma quiet_runUploadStreams: "quiet orch \<Longrightarrow> quiet (runUploadStreams n d scripts orch)"
  unfolding runUploadStreams_def
  by (rule quiet_fold) (simp_all add: runSingleUploadStream_def quiet_uploadLoop split: prod.splits)

lemma quiet_userStop: "quiet (userStop env k orch) = quiet orch"
  by (simp add: userStop_def quiet_stop)

lemma quiet_phases:
  "quiet orch \<Longrightarrow> quiet (runWarmup wscripts orch)"
  "quiet orch \<Longrightarrow> quiet (runRamp rscripts orch)"
  "quiet orch \<Longrightarrow> quiet (runMeasureDownload d dscripts orch)"
  "quiet orch \<Longrightarrow> quiet (runMeasureUpload d uscripts orch)"
  "quiet orch \<Longrightarrow> quiet (runCooldown orch)"
  by (simp_all add: runWarmup_def runRamp_def runMeasureDownload_def runMeasureUpload_def
      runCooldown_def Let_def quiet_runDownloadStreams quiet_runUploadStreams quiet_emit)

lemma runDiscovery_throws:
  "quiet orch \<Longrightarrow> quiet (snd (runDiscovery c orch))
   \<and> (\<forall>e. fst (runDiscovery c orch) = Some e \<longrightarrow> exn_name e = ''Error'')"
  by (cases c) (simp_all add: runDiscovery_def Let_def quiet_def emit_def)

lemma startLatencyTest_throws:
  assumes "quiet orch" and "\<forall>e. outcome = Throws e \<longrightarrow> exn_name e \<noteq> ''AbortError''"
  shows "quiet (snd (startLatencyTest outcome orch))
       \<and> (\<forall>e. fst (startLatencyTest outcome orch) = Some e \<longrightarrow> exn_name e \<noteq> ''AbortError'')"
  using assms by (cases outcome) (simp_all add: startLatencyTest_def startEchoLoop_def quiet_def)

lemma tryBlock_throws:
  assumes "quiet orch" and "\<forall>e. socketResult env = Throws e \<longrightarrow> exn_name e \<noteq> ''AbortError''"
  shows "quiet (snd (tryBlock env orch))
       \<and> (\<forall>e. fst (tryBlock env orch) = Some e \<longrightarrow> exn_name e \<noteq> ''AbortError'')"
proof -
  obtain t1 o1 where d: "runDiscovery (capabilitiesResult env) orch = (t1, o1)"
    by (cases "runDiscovery (capabilitiesResult env) orch")
  have q1: "quiet o1" "\<forall>e. t1 = Some e \<longrightarrow> exn_name e \<noteq> ''AbortError''"
    using runDiscovery_throws[OF assms(1), of "capabilitiesResult env"] d by auto
  show ?thesis
  proof (cases t1)
    case (Some e)
    then show ?thesis using d q1 by (simp add: tryBlock_def Let_def quiet_userStop)
  next
    case None
    obtain t2 o2 where l: "startLatencyTest (socketResult env) (userStop env 0 o1) = (t2, o2)"
      by (cases "startLatencyTest (socketResult env) (userStop env 0 o1)")
    have "quiet (userStop env 0 o1)" using q1 by (simp add: quiet_userStop)
    from startLatencyTest_throws[OF this assms(2)] l
    have q2: "quiet o2" "\<forall>e. t2 = Some e \<longrightarrow> exn_name e \<noteq> ''AbortError''" by simp_all
    show ?thesis
    proof (cases t2)
      case (Some e)
      then show ?thesis using d None l q2 by (simp add: tryBlock_def Let_def quiet_userStop)
    next
      case n2: None
      show ?thesis using d None l n2 q2(1)
        by (simp add: tryBlock_def Let_def quiet_userStop quiet_phases quiet_emit)
    qed
  qed
qed

lemma start_never_cancelled:
  assumes "Cancelled \<notin> set (emitted orch)"
    and "\<forall>e. socketResult env = Throws e \<longrightarrow> exn_name e \<noteq> ''AbortError''"
  shows "Cancelled \<notin> set (emitted (start env orch))"
proof -
  let ?o = "(reset_orchestrator orch)\<lparr>abortController := Some False\<rparr>"
  have q: "quiet ?o" using assms by (simp add: quiet_def reset_orchestrator_def)
  obtain t o1 where b: "tryBlock env ?o = (t, o1)" by (cases "tryBlock env ?o")
  have q1: "quiet o1" "\<forall>e. t = Some e \<longrightarrow> exn_name e \<noteq> ''AbortError''"
    using tryBlock_throws[OF q assms(2)] b by simp_all
  have "quiet (start env orch)"
    using b q1 by (cases t) (simp_all add: start_def quiet_cleanup quiet_emit)
  thus ?thesis by (simp add: quiet_def)
qed

lemma quietDownload_noop: "runSingleDownloadStream i d w quietDownload orch = orch"
  by (simp add: runSingleDownloadStream_def quietDownload_def split: option.splits)

lemma abortedDownload_noop: "runSingleDownloadStream i d w abortedDownload orch = orch"
  by (simp add: runSingleDownloadStream_def abortedDownload_def split: option.splits)

lemma fold_noop: "(\<And>i. f i orch = orch) \<Longrightarrow> fold f is orch = orch"
  by (induction "is") simp_all

lemma runDownloadStreams_noop:
  "runDownloadStreams n d w (\<lambda>i. quietDownload) orch = orch"
  "runDownloadStreams n d w (\<lambda>i. abortedDownload) orch = orch"
  unfolding runDownloadStreams_def
  by (rule fold_noop, rule quietDownload_noop, rule fold_noop, rule abortedDownload_noop)

lemma runUploadStreams_after_stop:
  assumes "abortController orch = None" and "concurrency orch = 1"
  shows "runUploadStreams (concurrency orch) 5000
           (\<lambda>i. (9000, [\<lparr>guardClock = 9000, posted = Inr True, sampleClock = 9100\<rparr>])) orch
         = emit MetricsUpdate (orch\<lparr>metrics := addThroughputSample chunkSize 9100 (metrics orch)\<rparr>)"
  using assms by (simp add: runUploadStreams_def runSingleUploadStream_def)

text \<open>
  Claim C7. The user calls \<open>stop()\<close> during the measure-download phase. The download
  streams in flight end, but \<open>stop()\<close> emits nothing and \<open>start\<close> goes on: it enters
  the measure-upload phase, whose stream runs (with \<open>abortController = null\<close> its loop
  condition holds) and records a throughput sample, then the cooldown, and it ends with
  \<open>complete\<close>. No \<open>cancelled\<close> event is emitted, and events follow the stop.
\<close>

theorem stop_is_not_reported_as_cancelled:
  "emitted (start stoppedRun new_orchestrator)
     = [PhaseChange ''discovery'', Capabilities, PhaseChange ''warmup'', PhaseChange ''ramp'',
        PhaseChange ''measure-download'', PhaseChange ''measure-upload'', MetricsUpdate,
        PhaseChange ''cooldown'', Complete]
   \<and> throughputSamples (metrics (start stoppedRun new_orchestrator))
     = [\<lparr>bytes = chunkSize, timestamp = 9100\<rparr>]"
proof -
  define o0 where "o0 = (reset_orchestrator new_orchestrator)\<lparr>abortController := Some False\<rparr>"
  define o1 where "o1 = emit Capabilities
               ((emit (PhaseChange ''discovery'') (o0\<lparr>phase := Some ''discovery''\<rparr>))\<lparr>concurrency := 1\<rparr>)"
  define o2 where "o2 = startEchoLoop (o1\<lparr>ws := Some True\<rparr>)"
  define o3 where "o3 = emit (PhaseChange ''warmup'') (o2\<lparr>phase := Some ''warmup''\<rparr>)"
  define o4 where "o4 = emit (PhaseChange ''ramp'') (o3\<lparr>phase := Some ''ramp''\<rparr>)"
  define o5 where "o5 = stop (emit (PhaseChange ''measure-download'') (o4\<lparr>phase := Some ''measure-download''\<rparr>))"
  define o5' where "o5' = emit (PhaseChange ''measure-upload'') (o5\<lparr>phase := Some ''measure-upload''\<rparr>)"
  define o6 where "o6 = emit MetricsUpdate (o5'\<lparr>metrics := addThroughputSample chunkSize 9100 (metrics o5')\<rparr>)"
  define o7 where "o7 = emit (PhaseChange ''cooldown'') (o6\<lparr>phase := Some ''cooldown''\<rparr>)"
  have s: "stopDuring stoppedRun = Some 4" "optionsDuration stoppedRun = 0"
    "capabilitiesResult stoppedRun = Inr 1" "socketResult stoppedRun = Opens"
    "warmupStreams stoppedRun = (\<lambda>i. quietDownload)" "rampStreams stoppedRun = (\<lambda>i. quietDownload)"
    "measureDownloadStreams stoppedRun = (\<lambda>i. abortedDownload)"
    "measureUploadStreams stoppedRun
       = (\<lambda>i. (9000, [\<lparr>guardClock = 9000, posted = Inr True, sampleClock = 9100\<rparr>]))"
    by (simp_all add: stoppedRun_def)
  have us: "\<And>k orch. userStop stoppedRun k orch = (if k = 4 then stop orch else orch)"
    by (simp add: userStop_def s(1))
  have d: "runDiscovery (capabilitiesResult stoppedRun) o0 = (None, o1)"
    unfolding o1_def s by (simp add: runDiscovery_def Let_def MAX_CONCURRENCY_def)
  have l: "startLatencyTest (socketResult stoppedRun) o1 = (None, o2)"
    unfolding o2_def s by (simp add: startLatencyTest_def)
  have w: "runWarmup (warmupStreams stoppedRun) o2 = o3"
    unfolding o3_def s by (simp add: runWarmup_def Let_def runDownloadStreams_noop)
  have r: "runRamp (rampStreams stoppedRun) o3 = o4"
    unfolding o4_def s by (simp add: runRamp_def Let_def runDownloadStreams_noop)
  have m: "stop (runMeasureDownload 5000 (measureDownloadStreams stoppedRun) o4) = o5"
    unfolding o5_def s by (simp add: runMeasureDownload_def Let_def runDownloadStreams_noop)
  have a: "abortController o5' = None" "concurrency o5' = 1"
    unfolding o5'_def o5_def o4_def o3_def o2_def o1_def o0_def
    by (simp_all add: emit_def stop_def cleanup_def startEchoLoop_def reset_orchestrator_def)
  have u: "runMeasureUpload 5000 (measureUploadStreams stoppedRun) o5 = o6"
    unfolding runMeasureUpload_def Let_def o6_def s
    using runUploadStreams_after_stop[OF a] by (simp add: o5'_def)
  have c: "runCooldown o6 = o7" unfolding o7_def by (simp add: runCooldown_def)
  have t: "tryBlock stoppedRun o0 = (None, emit Complete o7)"
    by (simp add: tryBlock_def us s(2) d l w r m u c Let_def)
  have f: "start stoppedRun new_orchestrator = cleanup (emit Complete o7)"
    unfolding start_def using t by (simp add: o0_def)
  have e: "emitted (cleanup (emit Complete o7))
     = [PhaseChange ''discovery'', Capabilities, PhaseChange ''warmup'', PhaseChange ''ramp'',
        PhaseChange ''measure-download'', PhaseChange ''measure-upload'', MetricsUpdate,
        PhaseChange ''cooldown'', Complete]"
    unfolding o7_def o6_def o5'_def o5_def o4_def o3_def o2_def o1_def o0_def
    by (simp add: cleanup_def emit_def stop_def startEchoLoop_def reset_orchestrator_def
        new_orchestrator_def)
  have g: "throughputSamples (metrics (cleanup (emit Complete o7)))
     = [\<lparr>bytes = chunkSize, timestamp = 9100\<rparr>]"
    unfolding o7_def o6_def o5'_def o5_def o4_def o3_def o2_def o1_def o0_def
    by (simp add: cleanup_def emit_def stop_def startEchoLoop_def reset_orchestrator_def
        new_orchestrator_def reset_def addThroughputSample_def)
  show ?thesis unfolding f using e g by simp
qed

end
